theory Spec2Isabelle
  imports Main "HOL-Library.Word"
begin

section \<open>Machine types and build-time configuration\<close>

text \<open>
  The engine of \<^verbatim>\<open>src/keystroke_stats.c\<close> works on fixed-width unsigned integers; they
  are words here, so that every \<^verbatim>\<open>++\<close>, subtraction and cast wraps as in C.
  \<^verbatim>\<open>k_uptime_get()\<close> returns a 64-bit millisecond count which the code assigns to a
  \<^verbatim>\<open>uint32_t\<close>; a reading is a 64-bit word and \<open>ucast\<close> is that assignment.
  A function pointer and a \<^verbatim>\<open>void *\<close> are addresses, modelled as naturals with
  \<open>0\<close> for \<^verbatim>\<open>NULL\<close>.
\<close>

type_synonym u8 = "8 word"
type_synonym u16 = "16 word"
type_synonym u32 = "32 word"
type_synonym i64 = "64 word"
type_synonym fnptr = nat

text \<open>
  The \<^verbatim>\<open>CONFIG_ZMK_KEYSTROKE_STATS_*\<close> constants come from the Kconfig file, which is not
  among the sources; they are parameters. All four optional features (session tracking,
  WPM, heatmap, daily history) are taken as enabled, which is their documented default.
\<close>

record config =
  MAX_KEY_POSITIONS :: nat
  TOP_KEYS_COUNT :: nat
  DAILY_HISTORY_DAYS :: nat
  WPM_WINDOW_MS :: nat
  SESSION_TIMEOUT_MS :: nat
  DAY_ROLLOVER_HOUR :: nat
  SAVE_DEBOUNCE_MS :: nat

datatype errno = EINVAL | ENOMEM | ENOENT | ENOTSUP

section \<open>Data model\<close>

record zmk_keystroke_stats_key_entry =
  position :: u32
  count :: u32

record zmk_keystroke_stats_daily_entry =
  year :: u16
  month :: u8
  day :: u8
  keystrokes :: u32

text \<open>\<^verbatim>\<open>struct zmk_keystroke_stats\<close>, the snapshot handed to callers (fields prefixed \<open>st_\<close>).\<close>

record zmk_keystroke_stats =
  st_total_keystrokes :: u32
  st_today_keystrokes :: u32
  st_yesterday_keystrokes :: u32
  st_session_keystrokes :: u32
  st_current_wpm :: u8
  st_average_wpm :: u8
  st_peak_wpm :: u8
  st_total_typing_time_ms :: u32
  st_session_start_time :: u32
  st_last_keystroke_time :: u32
  st_top_keys :: "zmk_keystroke_stats_key_entry list"
  st_daily_stats :: "zmk_keystroke_stats_daily_entry list"
  st_daily_stats_count :: u8
  st_current_uptime_day :: u16

text \<open>\<^verbatim>\<open>struct zmk_keystroke_stats_persist_data\<close> (fields prefixed \<open>pd_\<close>).\<close>

record zmk_keystroke_stats_persist_data =
  pd_version :: u8
  pd_total_keystrokes :: u32
  pd_today_keystrokes :: u32
  pd_yesterday_keystrokes :: u32
  pd_current_uptime_day :: u16
  pd_peak_wpm :: u8
  pd_total_typing_time_ms :: u32
  pd_key_counts :: "u32 list"
  pd_daily_history :: "zmk_keystroke_stats_daily_entry list"
  pd_daily_history_count :: u8

record callback_entry =
  callback :: fnptr
  user_data :: nat

text \<open>
  The static \<^verbatim>\<open>state\<close> struct. The nested \<^verbatim>\<open>wpm_window\<close> struct is flattened into four
  fields. \<open>save_work\<close> is the delayable work item: \<open>Some d\<close> when it is scheduled to
  run after \<open>d\<close> milliseconds. \<open>callback_log\<close> is not a field of the C struct: it records,
  in order, every invocation of a registered callback together with the snapshot it was
  given, which is the only effect of a callback that the engine itself determines
  (callbacks are taken not to call back into the engine). \<open>out_of_bounds\<close> is not a
  field of the C struct either: it is raised when an operation stores outside an array,
  which C leaves undefined; from then on the model says nothing about the program. The
  mutex is not modelled: the model is the sequential behaviour of each operation.
\<close>

record stats_state =
  total_keystrokes :: u32
  today_keystrokes :: u32
  yesterday_keystrokes :: u32
  session_keystrokes :: u32
  session_start_time :: u32
  current_wpm :: u8
  average_wpm :: u8
  peak_wpm :: u8
  total_typing_time_ms :: u32
  wpm_window_keystrokes :: "u32 list"
  wpm_window_timestamps :: "u32 list"
  wpm_window_head :: u8
  wpm_window_count :: u8
  key_counts :: "u32 list"
  daily_history :: "zmk_keystroke_stats_daily_entry list"
  daily_history_count :: u8
  current_uptime_day :: u16
  last_keystroke_time :: u32
  callbacks :: "callback_entry list"
  callback_count :: u8
  save_work :: "nat option"
  save_pending :: bool
  initialized :: bool
  callback_log :: "(fnptr \<times> nat \<times> zmk_keystroke_stats) list"
  out_of_bounds :: bool

definition PERSIST_DATA_VERSION :: u8 where
  "PERSIST_DATA_VERSION = 1"

definition SETTINGS_VERSION :: u8 where
  "SETTINGS_VERSION = 1"

definition zero_daily_entry :: zmk_keystroke_stats_daily_entry where
  "zero_daily_entry = \<lparr>year = 0, month = 0, day = 0, keystrokes = 0\<rparr>"

definition zero_key_entry :: zmk_keystroke_stats_key_entry where
  "zero_key_entry = \<lparr>position = 0, count = 0\<rparr>"

section \<open>Day index from uptime\<close>

text \<open>
  \<^verbatim>\<open>get_uptime_day\<close>: the reading is cut to 32 bits, divided into hours, the rollover
  hour is subtracted in unsigned arithmetic and the difference is read as \<^verbatim>\<open>int32_t\<close>;
  a negative value is clamped to zero before the division by 24, so the signed division
  only ever sees a non-negative dividend.
\<close>

definition get_uptime_day :: "config \<Rightarrow> i64 \<Rightarrow> u16" where
  "get_uptime_day cfg uptime =
     (let uptime_ms = (ucast uptime :: u32);
          uptime_hours = uptime_ms div 3600000;
          adjusted_hours = sint (uptime_hours - of_nat (DAY_ROLLOVER_HOUR cfg));
          adjusted_hours = (if adjusted_hours < 0 then 0 else adjusted_hours)
      in word_of_int (adjusted_hours div 24))"

section \<open>Reading a snapshot\<close>

text \<open>
  The selection loops of \<^verbatim>\<open>zmk_keystroke_stats_get\<close>. \<open>top_keys_inner n i j tk\<close> is the
  inner \<^verbatim>\<open>for (j = i + 1; j < MAX_KEY_POSITIONS; j++)\<close> from index \<open>j\<close> on: a strictly
  larger count at \<open>j\<close> is swapped into slot \<open>i\<close>. \<open>top_keys_outer\<close> is the outer loop,
  which also copies slot \<open>i\<close> into the caller's \<^verbatim>\<open>top_keys\<close> array after each pass.
\<close>

function top_keys_inner ::
  "nat \<Rightarrow> nat \<Rightarrow> nat \<Rightarrow> zmk_keystroke_stats_key_entry list \<Rightarrow> zmk_keystroke_stats_key_entry list"
where
  "top_keys_inner n i j tk =
     (if j < n
      then top_keys_inner n i (Suc j)
             (if count (tk ! i) < count (tk ! j) then tk[i := tk ! j, j := tk ! i] else tk)
      else tk)"
  by pat_completeness auto
termination
  by (relation "measure (\<lambda>(n, i, j, tk). n - j)") auto

function top_keys_outer ::
  "nat \<Rightarrow> nat \<Rightarrow> nat \<Rightarrow> zmk_keystroke_stats_key_entry list \<Rightarrow> zmk_keystroke_stats_key_entry list
     \<Rightarrow> zmk_keystroke_stats_key_entry list"
where
  "top_keys_outer n k i tk out =
     (if i < k
      then (let tk' = top_keys_inner n i (Suc i) tk
            in top_keys_outer n k (Suc i) tk' (out[i := tk' ! i]))
      else out)"
  by pat_completeness auto
termination
  by (relation "measure (\<lambda>(n, k, i, tk, out). k - i)") auto

declare top_keys_inner.simps [simp del]
declare top_keys_outer.simps [simp del]

text \<open>The "copy all keys" loop: slot \<open>i\<close> of the scratch array is \<open>(i, key_counts[i])\<close>.\<close>

definition copy_all_keys :: "nat \<Rightarrow> u32 list \<Rightarrow> zmk_keystroke_stats_key_entry list" where
  "copy_all_keys n kc = map (\<lambda>i. \<lparr>position = of_nat i, count = kc ! i\<rparr>) [0..<n]"

definition top_keys_of :: "config \<Rightarrow> u32 list \<Rightarrow> zmk_keystroke_stats_key_entry list" where
  "top_keys_of cfg kc =
     top_keys_outer (MAX_KEY_POSITIONS cfg) (TOP_KEYS_COUNT cfg) 0
       (copy_all_keys (MAX_KEY_POSITIONS cfg) kc)
       (replicate (TOP_KEYS_COUNT cfg) zero_key_entry)"

text \<open>
  The history copy loop \<^verbatim>\<open>for (i = 0; i < daily_history_count; i++)\<close>. The loop has no
  bound but the count, while the caller's \<^verbatim>\<open>daily_stats\<close> array has
  \<^verbatim>\<open>DAILY_HISTORY_DAYS\<close> entries (as the engine's own array has): a store at an index
  outside \<open>dst\<close> is a write past the caller's struct, and the result is \<open>None\<close>.
\<close>

function copy_daily ::
  "nat \<Rightarrow> nat \<Rightarrow> zmk_keystroke_stats_daily_entry list \<Rightarrow> zmk_keystroke_stats_daily_entry list
     \<Rightarrow> zmk_keystroke_stats_daily_entry list option"
where
  "copy_daily n i src dst =
     (if i < n
      then (if i < length dst then copy_daily n (Suc i) src (dst[i := src ! i]) else None)
      else Some dst)"
  by pat_completeness auto
termination
  by (relation "measure (\<lambda>(n, i, src, dst). n - i)") auto

declare copy_daily.simps [simp del]

definition daily_stats_copy ::
  "config \<Rightarrow> stats_state \<Rightarrow> zmk_keystroke_stats_daily_entry list option"
where
  "daily_stats_copy cfg s =
     copy_daily (unat (daily_history_count s)) 0 (daily_history s)
       (replicate (DAILY_HISTORY_DAYS cfg) zero_daily_entry)"

text \<open>
  The snapshot that \<^verbatim>\<open>zmk_keystroke_stats_get\<close> writes through a non-null pointer: the
  struct is cleared by \<^verbatim>\<open>memset\<close> and then filled field by field. Where the history
  copy runs out of the array the content of the struct is not determined by the program;
  the model leaves the array cleared there and \<^verbatim>\<open>zmk_keystroke_stats_get\<close> raises
  \<open>out_of_bounds\<close>.
\<close>

definition stats_snapshot :: "config \<Rightarrow> stats_state \<Rightarrow> zmk_keystroke_stats" where
  "stats_snapshot cfg s =
     \<lparr>st_total_keystrokes = total_keystrokes s,
      st_today_keystrokes = today_keystrokes s,
      st_yesterday_keystrokes = yesterday_keystrokes s,
      st_session_keystrokes = session_keystrokes s,
      st_current_wpm = current_wpm s,
      st_average_wpm = average_wpm s,
      st_peak_wpm = peak_wpm s,
      st_total_typing_time_ms = total_typing_time_ms s,
      st_session_start_time = session_start_time s,
      st_last_keystroke_time = last_keystroke_time s,
      st_top_keys = top_keys_of cfg (key_counts s),
      st_daily_stats =
        (case daily_stats_copy cfg s of
           Some d \<Rightarrow> d
         | None \<Rightarrow> replicate (DAILY_HISTORY_DAYS cfg) zero_daily_entry),
      st_daily_stats_count = daily_history_count s,
      st_current_uptime_day = current_uptime_day s\<rparr>"

text \<open>
  \<^verbatim>\<open>zmk_keystroke_stats_get\<close>. The output pointer is \<open>None\<close> for \<^verbatim>\<open>NULL\<close> and \<open>Some old\<close>
  for a pointer to a struct holding \<open>old\<close>; the result is the return value (\<open>Inl e\<close> for
  \<^verbatim>\<open>-e\<close>, \<open>Inr\<close> with the struct written for \<^verbatim>\<open>0\<close>) and the engine state afterwards.
  The function writes no field of the engine state; when its history copy stores past the
  caller's array, \<open>out_of_bounds\<close> is raised.
\<close>

definition zmk_keystroke_stats_get ::
  "config \<Rightarrow> zmk_keystroke_stats option \<Rightarrow> stats_state
     \<Rightarrow> (errno + zmk_keystroke_stats) \<times> stats_state"
where
  "zmk_keystroke_stats_get cfg stats s =
     (case stats of
        None \<Rightarrow> (Inl EINVAL, s)
      | Some old \<Rightarrow>
          (Inr (stats_snapshot cfg s),
           if daily_stats_copy cfg s = None then s\<lparr>out_of_bounds := True\<rparr> else s))"

section \<open>Notification and save scheduling\<close>

definition zero_stats :: zmk_keystroke_stats where
  "zero_stats =
     \<lparr>st_total_keystrokes = 0, st_today_keystrokes = 0, st_yesterday_keystrokes = 0,
      st_session_keystrokes = 0, st_current_wpm = 0, st_average_wpm = 0, st_peak_wpm = 0,
      st_total_typing_time_ms = 0, st_session_start_time = 0, st_last_keystroke_time = 0,
      st_top_keys = [], st_daily_stats = [], st_daily_stats_count = 0,
      st_current_uptime_day = 0\<rparr>"

text \<open>
  The loop of \<^verbatim>\<open>notify_callbacks\<close> over the first \<open>n\<close> slots: every non-null handler is
  called with the snapshot and its own \<^verbatim>\<open>user_data\<close>; the call is appended to the log.
\<close>

function notify_loop ::
  "nat \<Rightarrow> nat \<Rightarrow> callback_entry list \<Rightarrow> zmk_keystroke_stats
     \<Rightarrow> (fnptr \<times> nat \<times> zmk_keystroke_stats) list \<Rightarrow> (fnptr \<times> nat \<times> zmk_keystroke_stats) list"
where
  "notify_loop n i cbs st log =
     (if i < n
      then notify_loop n (Suc i) cbs st
             (if callback (cbs ! i) \<noteq> 0
              then log @ [(callback (cbs ! i), user_data (cbs ! i), st)] else log)
      else log)"
  by pat_completeness auto
termination
  by (relation "measure (\<lambda>(n, i, cbs, st, log). n - i)") auto

declare notify_loop.simps [simp del]

text \<open>
  \<^verbatim>\<open>notify_callbacks\<close>: nothing without a registered callback; otherwise one snapshot is
  taken into a local struct (whose prior content \<^verbatim>\<open>zmk_keystroke_stats_get\<close> clears) and
  handed to every registered handler.
\<close>

definition notify_callbacks :: "config \<Rightarrow> stats_state \<Rightarrow> stats_state" where
  "notify_callbacks cfg s =
     (if callback_count s = 0 then s
      else (case zmk_keystroke_stats_get cfg (Some zero_stats) s of
              (Inr stats, s') \<Rightarrow>
                s'\<lparr>callback_log :=
                     notify_loop (unat (callback_count s')) 0 (callbacks s') stats (callback_log s')\<rparr>
            | (Inl e, s') \<Rightarrow> s'))"

text \<open>
  \<^verbatim>\<open>schedule_save\<close>: before initialisation nothing happens; afterwards a pending run is
  cancelled, the work item is scheduled after the debounce delay and the flag is set.
\<close>

definition schedule_save :: "config \<Rightarrow> stats_state \<Rightarrow> stats_state" where
  "schedule_save cfg s =
     (if \<not> initialized s then s
      else s\<lparr>save_work := Some (SAVE_DEBOUNCE_MS cfg), save_pending := True\<rparr>)"

section \<open>Day rollover\<close>

text \<open>The shift loop \<^verbatim>\<open>for (i = 0; i < DAILY_HISTORY_DAYS - 1; i++) h[i] = h[i + 1]\<close>.\<close>

function shift_history ::
  "nat \<Rightarrow> nat \<Rightarrow> zmk_keystroke_stats_daily_entry list \<Rightarrow> zmk_keystroke_stats_daily_entry list"
where
  "shift_history n i h =
     (if Suc i < n then shift_history n (Suc i) (h[i := h ! Suc i]) else h)"
  by pat_completeness auto
termination
  by (relation "measure (\<lambda>(n, i, h). n - i)") auto

declare shift_history.simps [simp del]

text \<open>The entry written on rollover: the stored day cast to \<^verbatim>\<open>uint8_t\<close>, today's count.\<close>

definition rollover_entry :: "stats_state \<Rightarrow> zmk_keystroke_stats_daily_entry" where
  "rollover_entry s =
     \<lparr>year = 0, month = 0, day = ucast (current_uptime_day s),
      keystrokes = today_keystrokes s\<rparr>"

definition check_day_rollover :: "config \<Rightarrow> i64 \<Rightarrow> stats_state \<Rightarrow> stats_state" where
  "check_day_rollover cfg uptime s =
     (let current_day = get_uptime_day cfg uptime
      in if current_day \<noteq> current_uptime_day s
         then (let s1 =
                     (if unat (daily_history_count s) < DAILY_HISTORY_DAYS cfg
                      then s\<lparr>daily_history :=
                                (daily_history s)[unat (daily_history_count s) := rollover_entry s],
                              daily_history_count := daily_history_count s + 1\<rparr>
                      else s\<lparr>daily_history :=
                                (shift_history (DAILY_HISTORY_DAYS cfg) 0 (daily_history s))
                                  [DAILY_HISTORY_DAYS cfg - 1 := rollover_entry s]\<rparr>);
                   s2 = s1\<lparr>yesterday_keystrokes := today_keystrokes s1,
                            today_keystrokes := 0,
                            current_uptime_day := current_day\<rparr>
               in notify_callbacks cfg (schedule_save cfg s2))
         else s)"

section \<open>Typing speed\<close>

text \<open>
  The scan of \<^verbatim>\<open>update_wpm\<close> over the first \<open>n\<close> slots of the window, carrying the local
  \<^verbatim>\<open>total_keystrokes\<close> (here \<open>sum_ks\<close>) and \<^verbatim>\<open>oldest_time\<close>. The age test
  subtracts modulo \<open>2^32\<close>; the test
  for an older entry compares the raw timestamps.
\<close>

function wpm_scan ::
  "nat \<Rightarrow> nat \<Rightarrow> u32 \<Rightarrow> u32 \<Rightarrow> u32 list \<Rightarrow> u32 list \<Rightarrow> u32 \<Rightarrow> u32 \<Rightarrow> u32 \<times> u32"
where
  "wpm_scan n i now window_ms ts ks sum_ks oldest_time =
     (if i < n
      then (if now - ts ! i \<le> window_ms
            then wpm_scan n (Suc i) now window_ms ts ks (sum_ks + ks ! i)
                   (if ts ! i < oldest_time then ts ! i else oldest_time)
            else wpm_scan n (Suc i) now window_ms ts ks sum_ks oldest_time)
      else (sum_ks, oldest_time))"
  by pat_completeness auto
termination
  by (relation "measure (\<lambda>(n, i, now, window_ms, ts, ks, sum_ks, oldest_time). n - i)") auto

declare wpm_scan.simps [simp del]

definition update_wpm :: "config \<Rightarrow> i64 \<Rightarrow> stats_state \<Rightarrow> stats_state" where
  "update_wpm cfg uptime s =
     (let now = (ucast uptime :: u32);
          window_ms = (of_nat (WPM_WINDOW_MS cfg) :: u32);
          hd_ix = unat (wpm_window_head s);
          s1 = s\<lparr>wpm_window_timestamps := (wpm_window_timestamps s)[hd_ix := now],
                 wpm_window_keystrokes := (wpm_window_keystrokes s)[hd_ix := 1],
                 wpm_window_head := of_nat ((hd_ix + 1) mod 10),
                 wpm_window_count :=
                   (if unat (wpm_window_count s) < 10 then wpm_window_count s + 1
                    else wpm_window_count s)\<rparr>;
          (sum_ks, oldest_time) =
            wpm_scan (unat (wpm_window_count s1)) 0 now window_ms
              (wpm_window_timestamps s1) (wpm_window_keystrokes s1) 0 now;
          elapsed_ms = now - oldest_time;
          s2 = (if 0 < elapsed_ms \<and> 0 < sum_ks
                then (let wpm = (sum_ks * 60000) div (elapsed_ms * 5);
                          s' = s1\<lparr>current_wpm := ucast (min wpm 255)\<rparr>
                      in if peak_wpm s' < current_wpm s'
                         then s'\<lparr>peak_wpm := current_wpm s'\<rparr> else s')
                else s1\<lparr>current_wpm := 0\<rparr>)
      in if 0 < session_keystrokes s2 \<and> 0 < session_start_time s2
         then (let session_duration_ms = now - session_start_time s2
               in if 0 < session_duration_ms
                  then (let avg = (session_keystrokes s2 * 60000) div (session_duration_ms * 5)
                        in s2\<lparr>average_wpm := ucast (min avg 255)\<rparr>)
                  else s2)
         else s2)"

definition check_session_timeout :: "config \<Rightarrow> i64 \<Rightarrow> stats_state \<Rightarrow> stats_state" where
  "check_session_timeout cfg uptime s =
     (let now = (ucast uptime :: u32);
          idle_time = now - last_keystroke_time s
      in if (of_nat (SESSION_TIMEOUT_MS cfg) :: u32) < idle_time
         then s\<lparr>session_keystrokes := 0, session_start_time := now,
                average_wpm := 0, peak_wpm := 0,
                wpm_window_count := 0, wpm_window_head := 0\<rparr>
         else s)"

section \<open>The keystroke listener\<close>

text \<open>
  The event as the listener sees it: \<^verbatim>\<open>as_zmk_keycode_state_changed\<close> yields \<^verbatim>\<open>NULL\<close> for
  an event of another type. Of the keycode event only the fields the listener reads are
  kept: \<^verbatim>\<open>state\<close> (pressed) and \<^verbatim>\<open>usage_page\<close>.
\<close>

record zmk_keycode_state_changed =
  usage_page :: u16
  state :: bool

datatype zmk_event = Keycode_state_changed zmk_keycode_state_changed | Other_event

definition as_zmk_keycode_state_changed :: "zmk_event \<Rightarrow> zmk_keycode_state_changed option" where
  "as_zmk_keycode_state_changed eh =
     (case eh of Keycode_state_changed ev \<Rightarrow> Some ev | Other_event \<Rightarrow> None)"

definition ZMK_EV_EVENT_BUBBLE :: int where
  "ZMK_EV_EVENT_BUBBLE = 0"

text \<open>
  One run of the listener reads the uptime clock up to five times; the readings are
  inputs, one per call site, in the order of the calls.
\<close>

record uptime_reads =
  up_session_timeout :: i64
  up_session_start :: i64
  up_last_keystroke :: i64
  up_wpm :: i64
  up_day :: i64

definition keystroke_event_listener ::
  "config \<Rightarrow> zmk_event \<Rightarrow> uptime_reads \<Rightarrow> stats_state \<Rightarrow> int \<times> stats_state"
where
  "keystroke_event_listener cfg eh up s =
     (case as_zmk_keycode_state_changed eh of
        None \<Rightarrow> (ZMK_EV_EVENT_BUBBLE, s)
      | Some ev \<Rightarrow>
          if \<not> state ev then (ZMK_EV_EVENT_BUBBLE, s)
          else (let s1 = s\<lparr>total_keystrokes := total_keystrokes s + 1,
                           today_keystrokes := today_keystrokes s + 1\<rparr>;
                    s2 = check_session_timeout cfg (up_session_timeout up) s1;
                    s3 = (if session_keystrokes s2 = 0
                          then s2\<lparr>session_start_time := ucast (up_session_start up)\<rparr>
                          else s2);
                    s4 = s3\<lparr>session_keystrokes := session_keystrokes s3 + 1\<rparr>;
                    s5 = s4\<lparr>last_keystroke_time := ucast (up_last_keystroke up)\<rparr>;
                    pos = unat (ucast (usage_page ev) :: u32);
                    s6 = (if pos < MAX_KEY_POSITIONS cfg
                          then s5\<lparr>key_counts := (key_counts s5)[pos := key_counts s5 ! pos + 1]\<rparr>
                          else s5);
                    s7 = update_wpm cfg (up_wpm up) s6;
                    s8 = check_day_rollover cfg (up_day up) s7
                in (ZMK_EV_EVENT_BUBBLE, notify_callbacks cfg s8)))"

text \<open>A run of the listener over a sequence of events, each with its clock readings.\<close>

fun process_events :: "config \<Rightarrow> (zmk_event \<times> uptime_reads) list \<Rightarrow> stats_state \<Rightarrow> stats_state" where
  "process_events cfg [] s = s"
| "process_events cfg ((eh, up) # rest) s =
     process_events cfg rest (snd (keystroke_event_listener cfg eh up s))"

section \<open>Reset\<close>

definition zmk_keystroke_stats_reset ::
  "config \<Rightarrow> i64 \<Rightarrow> bool \<Rightarrow> stats_state \<Rightarrow> (errno + unit) \<times> stats_state"
where
  "zmk_keystroke_stats_reset cfg uptime reset_total s =
     (let s1 = (if reset_total then s\<lparr>total_keystrokes := 0\<rparr> else s);
          s2 = s1\<lparr>today_keystrokes := 0, yesterday_keystrokes := 0\<rparr>;
          s3 = s2\<lparr>session_keystrokes := 0, session_start_time := ucast uptime\<rparr>;
          s4 = s3\<lparr>current_wpm := 0, average_wpm := 0, peak_wpm := 0,
                  wpm_window_count := 0, wpm_window_head := 0\<rparr>;
          s5 = s4\<lparr>key_counts := replicate (MAX_KEY_POSITIONS cfg) 0\<rparr>;
          s6 = s5\<lparr>daily_history_count := 0,
                  daily_history := replicate (DAILY_HISTORY_DAYS cfg) zero_daily_entry\<rparr>
      in (Inr (), notify_callbacks cfg (schedule_save cfg s6)))"

section \<open>Callback registry\<close>

definition CALLBACKS_SIZE :: nat where
  "CALLBACKS_SIZE = 4"

definition zmk_keystroke_stats_register_callback ::
  "fnptr \<Rightarrow> nat \<Rightarrow> stats_state \<Rightarrow> (errno + unit) \<times> stats_state"
where
  "zmk_keystroke_stats_register_callback cb ud s =
     (if cb = 0 then (Inl EINVAL, s)
      else if CALLBACKS_SIZE \<le> unat (callback_count s) then (Inl ENOMEM, s)
      else (Inr (),
            s\<lparr>callbacks :=
                 (callbacks s)[unat (callback_count s) := \<lparr>callback = cb, user_data = ud\<rparr>],
               callback_count := callback_count s + 1\<rparr>))"

text \<open>The inner loop \<^verbatim>\<open>for (j = i; j < callback_count - 1; j++) c[j] = c[j + 1]\<close>.\<close>

function shift_callbacks :: "nat \<Rightarrow> nat \<Rightarrow> callback_entry list \<Rightarrow> callback_entry list" where
  "shift_callbacks n j cbs =
     (if Suc j < n then shift_callbacks n (Suc j) (cbs[j := cbs ! Suc j]) else cbs)"
  by pat_completeness auto
termination
  by (relation "measure (\<lambda>(n, j, cbs). n - j)") auto

declare shift_callbacks.simps [simp del]

text \<open>The search loop of \<^verbatim>\<open>zmk_keystroke_stats_unregister_callback\<close> from index \<open>i\<close> on.\<close>

function unregister_from :: "nat \<Rightarrow> fnptr \<Rightarrow> stats_state \<Rightarrow> (errno + unit) \<times> stats_state" where
  "unregister_from i cb s =
     (if i < unat (callback_count s)
      then (if callback (callbacks s ! i) = cb
            then (Inr (),
                  s\<lparr>callbacks := shift_callbacks (unat (callback_count s)) i (callbacks s),
                     callback_count := callback_count s - 1\<rparr>)
            else unregister_from (Suc i) cb s)
      else (Inl ENOENT, s))"
  by pat_completeness auto
termination
  by (relation "measure (\<lambda>(i, cb, s). unat (callback_count s) - i)") auto

declare unregister_from.simps [simp del]

definition zmk_keystroke_stats_unregister_callback ::
  "fnptr \<Rightarrow> stats_state \<Rightarrow> (errno + unit) \<times> stats_state"
where
  "zmk_keystroke_stats_unregister_callback cb s = unregister_from 0 cb s"

section \<open>Persistence snapshots\<close>

definition zmk_keystroke_stats_get_persist_data ::
  "zmk_keystroke_stats_persist_data option \<Rightarrow> stats_state
     \<Rightarrow> (errno + zmk_keystroke_stats_persist_data) \<times> stats_state"
where
  "zmk_keystroke_stats_get_persist_data data s =
     (case data of
        None \<Rightarrow> (Inl EINVAL, s)
      | Some old \<Rightarrow>
          (Inr (old\<lparr>pd_version := PERSIST_DATA_VERSION,
                    pd_total_keystrokes := total_keystrokes s,
                    pd_today_keystrokes := today_keystrokes s,
                    pd_yesterday_keystrokes := yesterday_keystrokes s,
                    pd_current_uptime_day := current_uptime_day s,
                    pd_peak_wpm := peak_wpm s,
                    pd_total_typing_time_ms := total_typing_time_ms s,
                    pd_key_counts := key_counts s,
                    pd_daily_history := daily_history s,
                    pd_daily_history_count := daily_history_count s\<rparr>), s))"

definition zmk_keystroke_stats_load_persist_data ::
  "config \<Rightarrow> zmk_keystroke_stats_persist_data option \<Rightarrow> stats_state
     \<Rightarrow> (errno + unit) \<times> stats_state"
where
  "zmk_keystroke_stats_load_persist_data cfg data s =
     (case data of
        None \<Rightarrow> (Inl EINVAL, s)
      | Some d \<Rightarrow>
          if pd_version d \<noteq> PERSIST_DATA_VERSION then (Inl EINVAL, s)
          else (let s1 = s\<lparr>total_keystrokes := pd_total_keystrokes d,
                           today_keystrokes := pd_today_keystrokes d,
                           yesterday_keystrokes := pd_yesterday_keystrokes d,
                           current_uptime_day := pd_current_uptime_day d\<rparr>;
                    s2 = s1\<lparr>peak_wpm := pd_peak_wpm d,
                            total_typing_time_ms := pd_total_typing_time_ms d\<rparr>;
                    s3 = s2\<lparr>key_counts := pd_key_counts d\<rparr>;
                    s4 = s3\<lparr>daily_history := pd_daily_history d,
                            daily_history_count := pd_daily_history_count d\<rparr>
                in (Inr (), notify_callbacks cfg s4)))"

section \<open>Initialisation\<close>

text \<open>The state after \<^verbatim>\<open>memset(&state, 0, sizeof(state))\<close>, every array at its declared size.\<close>

definition zero_state :: "config \<Rightarrow> stats_state" where
  "zero_state cfg =
     \<lparr>total_keystrokes = 0, today_keystrokes = 0, yesterday_keystrokes = 0,
      session_keystrokes = 0, session_start_time = 0,
      current_wpm = 0, average_wpm = 0, peak_wpm = 0, total_typing_time_ms = 0,
      wpm_window_keystrokes = replicate 10 0, wpm_window_timestamps = replicate 10 0,
      wpm_window_head = 0, wpm_window_count = 0,
      key_counts = replicate (MAX_KEY_POSITIONS cfg) 0,
      daily_history = replicate (DAILY_HISTORY_DAYS cfg) zero_daily_entry,
      daily_history_count = 0,
      current_uptime_day = 0, last_keystroke_time = 0,
      callbacks = replicate CALLBACKS_SIZE \<lparr>callback = 0, user_data = 0\<rparr>,
      callback_count = 0,
      save_work = None, save_pending = False, initialized = False,
      callback_log = [], out_of_bounds = False\<rparr>"

text \<open>
  \<^verbatim>\<open>keystroke_stats_load_from_settings\<close> as the engine sees it: the settings subsystem
  hands the stored record, if there is one of the right size, to
  \<^verbatim>\<open>settings_load_handler\<close>, which ignores a record of another version and otherwise
  calls \<^verbatim>\<open>zmk_keystroke_stats_load_persist_data\<close>. \<open>stored\<close> is \<open>None\<close> when nothing
  (or nothing of the right size) is stored.
\<close>

definition keystroke_stats_load_from_settings ::
  "config \<Rightarrow> zmk_keystroke_stats_persist_data option \<Rightarrow> stats_state \<Rightarrow> stats_state"
where
  "keystroke_stats_load_from_settings cfg stored s =
     (case stored of
        None \<Rightarrow> s
      | Some d \<Rightarrow>
          if pd_version d \<noteq> SETTINGS_VERSION then s
          else snd (zmk_keystroke_stats_load_persist_data cfg (Some d) s))"

definition keystroke_stats_init ::
  "config \<Rightarrow> i64 \<Rightarrow> zmk_keystroke_stats_persist_data option \<Rightarrow> stats_state"
where
  "keystroke_stats_init cfg uptime stored =
     (let s1 = (zero_state cfg)\<lparr>current_uptime_day := get_uptime_day cfg uptime\<rparr>;
          s2 = keystroke_stats_load_from_settings cfg stored s1
      in s2\<lparr>initialized := True\<rparr>)"

section \<open>Views of the state used in the statements\<close>

text \<open>
  The arrays of the state have a fixed size and a separate count; the entries that count
  are the first \<open>count\<close> slots, which is what every loop of the engine reads.
\<close>

definition history_entries :: "stats_state \<Rightarrow> zmk_keystroke_stats_daily_entry list" where
  "history_entries s = take (unat (daily_history_count s)) (daily_history s)"

definition registered :: "stats_state \<Rightarrow> callback_entry list" where
  "registered s = take (unat (callback_count s)) (callbacks s)"

definition window_entries :: "stats_state \<Rightarrow> (u32 \<times> u32) list" where
  "window_entries s =
     take (unat (wpm_window_count s)) (zip (wpm_window_timestamps s) (wpm_window_keystrokes s))"


text \<open>Well-formedness: every array has its declared size and every count fits its array.\<close>

definition history_count_ok :: "config \<Rightarrow> stats_state \<Rightarrow> bool" where
  "history_count_ok cfg s \<longleftrightarrow> unat (daily_history_count s) \<le> DAILY_HISTORY_DAYS cfg"


definition callbacks_wf :: "stats_state \<Rightarrow> bool" where
  "callbacks_wf s \<longleftrightarrow>
     length (callbacks s) = CALLBACKS_SIZE \<and> unat (callback_count s) \<le> CALLBACKS_SIZE"

text \<open>Removing the first entry registered for a handler, the others kept in order.\<close>

fun remove_handler :: "fnptr \<Rightarrow> callback_entry list \<Rightarrow> callback_entry list" where
  "remove_handler cb [] = []"
| "remove_handler cb (e # es) = (if callback e = cb then es else e # remove_handler cb es)"

text \<open>
  The state of the listener, for a pressed key, at the point where it calls
  \<^verbatim>\<open>check_day_rollover\<close>: counters, session, heatmap and speed are already updated.
\<close>

definition before_rollover ::
  "config \<Rightarrow> zmk_keycode_state_changed \<Rightarrow> uptime_reads \<Rightarrow> stats_state \<Rightarrow> stats_state"
where
  "before_rollover cfg ev up s =
     (let s1 = s\<lparr>total_keystrokes := total_keystrokes s + 1,
                  today_keystrokes := today_keystrokes s + 1\<rparr>;
          s2 = check_session_timeout cfg (up_session_timeout up) s1;
          s3 = (if session_keystrokes s2 = 0
                then s2\<lparr>session_start_time := ucast (up_session_start up)\<rparr>
                else s2);
          s4 = s3\<lparr>session_keystrokes := session_keystrokes s3 + 1\<rparr>;
          s5 = s4\<lparr>last_keystroke_time := ucast (up_last_keystroke up)\<rparr>;
          pos = unat (ucast (usage_page ev) :: u32);
          s6 = (if pos < MAX_KEY_POSITIONS cfg
                then s5\<lparr>key_counts := (key_counts s5)[pos := key_counts s5 ! pos + 1]\<rparr>
                else s5)
      in update_wpm cfg (up_wpm up) s6)"

text \<open>
  The listener's state, for a pressed key, at the point where it calls \<^verbatim>\<open>update_wpm\<close>,
  and the three stages of \<^verbatim>\<open>update_wpm\<close>: the insertion into the ring, the current and
  peak speed from the scan of the window, and the session average.
\<close>

definition before_update_wpm ::
  "config \<Rightarrow> zmk_keycode_state_changed \<Rightarrow> uptime_reads \<Rightarrow> stats_state \<Rightarrow> stats_state"
where
  "before_update_wpm cfg ev up s =
     (let s1 = s\<lparr>total_keystrokes := total_keystrokes s + 1,
                  today_keystrokes := today_keystrokes s + 1\<rparr>;
          s2 = check_session_timeout cfg (up_session_timeout up) s1;
          s3 = (if session_keystrokes s2 = 0
                then s2\<lparr>session_start_time := ucast (up_session_start up)\<rparr>
                else s2);
          s4 = s3\<lparr>session_keystrokes := session_keystrokes s3 + 1\<rparr>;
          s5 = s4\<lparr>last_keystroke_time := ucast (up_last_keystroke up)\<rparr>;
          pos = unat (ucast (usage_page ev) :: u32)
      in if pos < MAX_KEY_POSITIONS cfg
         then s5\<lparr>key_counts := (key_counts s5)[pos := key_counts s5 ! pos + 1]\<rparr>
         else s5)"

definition wpm_insert :: "i64 \<Rightarrow> stats_state \<Rightarrow> stats_state" where
  "wpm_insert uptime s =
     s\<lparr>wpm_window_timestamps :=
         (wpm_window_timestamps s)[unat (wpm_window_head s) := ucast uptime],
       wpm_window_keystrokes := (wpm_window_keystrokes s)[unat (wpm_window_head s) := 1],
       wpm_window_head := of_nat ((unat (wpm_window_head s) + 1) mod 10),
       wpm_window_count :=
         (if unat (wpm_window_count s) < 10 then wpm_window_count s + 1
          else wpm_window_count s)\<rparr>"

definition wpm_current :: "config \<Rightarrow> i64 \<Rightarrow> stats_state \<Rightarrow> stats_state" where
  "wpm_current cfg uptime s1 =
     (let now = (ucast uptime :: u32);
          (sum_ks, oldest_time) =
            wpm_scan (unat (wpm_window_count s1)) 0 now (of_nat (WPM_WINDOW_MS cfg))
              (wpm_window_timestamps s1) (wpm_window_keystrokes s1) 0 now;
          elapsed_ms = now - oldest_time
      in if 0 < elapsed_ms \<and> 0 < sum_ks
         then (let wpm = (sum_ks * 60000) div (elapsed_ms * 5);
                   s' = s1\<lparr>current_wpm := ucast (min wpm 255)\<rparr>
               in if peak_wpm s' < current_wpm s'
                  then s'\<lparr>peak_wpm := current_wpm s'\<rparr> else s')
         else s1\<lparr>current_wpm := 0\<rparr>)"

definition wpm_average :: "i64 \<Rightarrow> stats_state \<Rightarrow> stats_state" where
  "wpm_average uptime s2 =
     (let now = (ucast uptime :: u32)
      in if 0 < session_keystrokes s2 \<and> 0 < session_start_time s2
         then (let session_duration_ms = now - session_start_time s2
               in if 0 < session_duration_ms
                  then (let avg = (session_keystrokes s2 * 60000) div (session_duration_ms * 5)
                        in s2\<lparr>average_wpm := ucast (min avg 255)\<rparr>)
                  else s2)
         else s2)"

text \<open>The field assignments of \<^verbatim>\<open>zmk_keystroke_stats_reset\<close>, before its save request.\<close>

definition reset_fields_of :: "config \<Rightarrow> i64 \<Rightarrow> bool \<Rightarrow> stats_state \<Rightarrow> stats_state" where
  "reset_fields_of cfg uptime reset_total s =
     (if reset_total then s\<lparr>total_keystrokes := 0\<rparr> else s)
       \<lparr>today_keystrokes := 0, yesterday_keystrokes := 0,
         session_keystrokes := 0, session_start_time := ucast uptime,
         current_wpm := 0, average_wpm := 0, peak_wpm := 0,
         wpm_window_count := 0, wpm_window_head := 0,
         key_counts := replicate (MAX_KEY_POSITIONS cfg) 0,
         daily_history_count := 0,
         daily_history := replicate (DAILY_HISTORY_DAYS cfg) zero_daily_entry\<rparr>"

text \<open>The engine right after \<^verbatim>\<open>keystroke_stats_init\<close> at uptime \<open>t0\<close> with nothing stored.\<close>

definition fresh :: "config \<Rightarrow> i64 \<Rightarrow> stats_state" where
  "fresh cfg t0 = keystroke_stats_init cfg t0 None"

definition is_press :: "zmk_event \<times> uptime_reads \<Rightarrow> bool" where
  "is_press p = (case fst p of Keycode_state_changed ev \<Rightarrow> state ev | Other_event \<Rightarrow> False)"

text \<open>
  The ranking as the specification words it: the \<open>k\<close> highest counts in descending order
  of count, equal counts in ascending order of position. \<open>sort_key\<close> is a stable sort, so
  sorting the positions \<open>0, 1, ...\<close> by descending count leaves ties in ascending position.
\<close>

definition top_k_spec :: "nat \<Rightarrow> nat \<Rightarrow> u32 list \<Rightarrow> zmk_keystroke_stats_key_entry list" where
  "top_k_spec k n kc = take k (sort_key (\<lambda>e. - int (unat (count e))) (copy_all_keys n kc))"

text \<open>
  The speed as the specification words it, over the valid entries of the window after the
  insertion: the entries that qualify have an age (\<open>now - timestamp\<close>, modulo \<open>2^32\<close>)
  of at most the window; the elapsed span is the age of the oldest of them; the result is
  \<open>sum * 60000 / (elapsed * 5)\<close>, capped at 255, and 0 without a qualifying entry or
  with a span of zero.
\<close>

definition wpm_spec :: "nat \<Rightarrow> u32 \<Rightarrow> (u32 \<times> u32) list \<Rightarrow> nat" where
  "wpm_spec window now entries =
     (let q = filter (\<lambda>e. unat (now - fst e) \<le> window) entries;
          sum_ks = sum_list (map (\<lambda>e. unat (snd e)) q);
          elapsed = fold max (map (\<lambda>e. unat (now - fst e)) q) 0
      in if q = [] \<or> elapsed = 0 then 0 else min 255 (sum_ks * 60000 div (elapsed * 5)))"

section \<open>Concrete configurations and inputs\<close>

text \<open>The documented defaults (seven days of history) with a small heatmap.\<close>

definition cfg0 :: config where
  "cfg0 = \<lparr>MAX_KEY_POSITIONS = 4, TOP_KEYS_COUNT = 2, DAILY_HISTORY_DAYS = 7,
           WPM_WINDOW_MS = 5000, SESSION_TIMEOUT_MS = 30000, DAY_ROLLOVER_HOUR = 0,
           SAVE_DEBOUNCE_MS = 60000\<rparr>"

definition cfg3 :: config where
  "cfg3 = cfg0\<lparr>MAX_KEY_POSITIONS := 3\<rparr>"

definition press :: "u16 \<Rightarrow> zmk_event" where
  "press p = Keycode_state_changed \<lparr>usage_page = p, state = True\<rparr>"

definition release :: "u16 \<Rightarrow> zmk_event" where
  "release p = Keycode_state_changed \<lparr>usage_page = p, state = False\<rparr>"

definition reads_at :: "i64 \<Rightarrow> uptime_reads" where
  "reads_at t = \<lparr>up_session_timeout = t, up_session_start = t, up_last_keystroke = t,
                 up_wpm = t, up_day = t\<rparr>"

text \<open>A stored snapshot of the supported version, and two variants of it.\<close>

definition snapshot0 :: zmk_keystroke_stats_persist_data where
  "snapshot0 =
     \<lparr>pd_version = 1, pd_total_keystrokes = 100, pd_today_keystrokes = 10,
      pd_yesterday_keystrokes = 20, pd_current_uptime_day = 3, pd_peak_wpm = 50,
      pd_total_typing_time_ms = 0, pd_key_counts = [1, 2, 3, 4],
      pd_daily_history = replicate 7 zero_daily_entry, pd_daily_history_count = 0\<rparr>"

definition snapshot_v2 :: zmk_keystroke_stats_persist_data where
  "snapshot_v2 = snapshot0\<lparr>pd_version := 2\<rparr>"

definition snapshot_count200 :: zmk_keystroke_stats_persist_data where
  "snapshot_count200 = snapshot0\<lparr>pd_daily_history_count := 200\<rparr>"

text \<open>Three events within the first uptime day: two presses around a release.\<close>

definition events0 :: "(zmk_event \<times> uptime_reads) list" where
  "events0 = [(press 1, reads_at 1000), (release 1, reads_at 1100), (press 2, reads_at 2000)]"

text \<open>
  An initialised engine on uptime day 8 with five keystrokes today and a full history
  (days 1 to 7, ten keystrokes each), and one with an empty history and 42 keystrokes.
\<close>

definition state_full :: stats_state where
  "state_full =
     (fresh cfg0 0)
       \<lparr>total_keystrokes := 75, today_keystrokes := 5,
         daily_history := map (\<lambda>d. \<lparr>year = 0, month = 0, day = d, keystrokes = 10\<rparr>)
                            [1, 2, 3, 4, 5, 6, 7],
         daily_history_count := 7, current_uptime_day := 8\<rparr>"


text \<open>An engine with all four callback slots taken.\<close>

definition state_cb4 :: stats_state where
  "state_cb4 =
     (fresh cfg0 0)
       \<lparr>callbacks := [\<lparr>callback = 1, user_data = 10\<rparr>, \<lparr>callback = 2, user_data = 20\<rparr>,
                      \<lparr>callback = 3, user_data = 30\<rparr>, \<lparr>callback = 4, user_data = 40\<rparr>],
         callback_count := 4\<rparr>"

text \<open>Heatmaps: three positions with counts 5, 5, 9, and four with counts 5, 9, 9, 1.\<close>

definition state_559 :: stats_state where
  "state_559 = (fresh cfg3 0)\<lparr>key_counts := [5, 5, 9]\<rparr>"

definition state_5991 :: stats_state where
  "state_5991 = (fresh cfg0 0)\<lparr>key_counts := [5, 9, 9, 1]\<rparr>"

text \<open>
  Two key presses 512 ms apart, the first 256 ms before the 32-bit millisecond count
  wraps (after 49.7 days of uptime), the second 256 ms after.
\<close>

definition events_wrap :: "(zmk_event \<times> uptime_reads) list" where
  "events_wrap = [(press 1, reads_at 4294967040), (press 1, reads_at 4294967552)]"



definition state_count200 :: stats_state where
  "state_count200 =
     snd (zmk_keystroke_stats_load_persist_data cfg0 (Some snapshot_count200) (fresh cfg0 0))"

definition state_count200_cb :: stats_state where
  "state_count200_cb = snd (zmk_keystroke_stats_register_callback 7 0 state_count200)"

section \<open>Frame lemmas\<close>

text \<open>The history copy stays inside the caller's array exactly when the count fits it.\<close>

lemma copy_daily_in_bounds:
  "n \<le> length dst \<Longrightarrow> \<exists>d. copy_daily n i src dst = Some d"
proof (induction n i src dst rule: copy_daily.induct)
  case (1 n i src dst)
  show ?case
  proof (cases "i < n")
    case True
    then show ?thesis using 1 by (subst copy_daily.simps) simp
  next
    case False
    then show ?thesis by (subst copy_daily.simps) simp
  qed
qed

lemma copy_daily_overrun:
  "length dst < n \<Longrightarrow> i \<le> length dst \<Longrightarrow> copy_daily n i src dst = None"
proof (induction n i src dst rule: copy_daily.induct)
  case (1 n i src dst)
  show ?case
  proof (cases "i < length dst")
    case True
    then show ?thesis using 1 by (subst copy_daily.simps) simp
  next
    case False
    then show ?thesis using 1(2,3) by (subst copy_daily.simps) simp
  qed
qed

lemma daily_stats_copy_None:
  "daily_stats_copy cfg s = None \<longleftrightarrow> \<not> history_count_ok cfg s"
proof (cases "unat (daily_history_count s) \<le> DAILY_HISTORY_DAYS cfg")
  case True
  then show ?thesis
    using copy_daily_in_bounds [of "unat (daily_history_count s)"
        "replicate (DAILY_HISTORY_DAYS cfg) zero_daily_entry" 0 "daily_history s"]
    by (auto simp: daily_stats_copy_def history_count_ok_def)
next
  case False
  then show ?thesis
    using copy_daily_overrun [of "replicate (DAILY_HISTORY_DAYS cfg) zero_daily_entry"
        "unat (daily_history_count s)" 0 "daily_history s"]
    by (simp add: daily_stats_copy_def history_count_ok_def)
qed

lemma get_in_bounds:
  "history_count_ok cfg s \<Longrightarrow>
   zmk_keystroke_stats_get cfg (Some out) s = (Inr (stats_snapshot cfg s), s)"
  by (simp add: zmk_keystroke_stats_get_def daily_stats_copy_None)

lemma get_overrun:
  "\<not> history_count_ok cfg s \<Longrightarrow>
   zmk_keystroke_stats_get cfg (Some out) s
     = (Inr (stats_snapshot cfg s), s\<lparr>out_of_bounds := True\<rparr>)"
  by (simp add: zmk_keystroke_stats_get_def daily_stats_copy_None)

text \<open>
  Notification only extends the log (and raises \<open>out_of_bounds\<close> where its snapshot
  overruns); scheduling a save only touches the work item.
\<close>

lemma notify_callbacks_frame:
  "\<exists>l f. notify_callbacks cfg s = s\<lparr>callback_log := l, out_of_bounds := f\<rparr>"
proof (cases "callback_count s = 0")
  case True
  have "s = s\<lparr>callback_log := callback_log s, out_of_bounds := out_of_bounds s\<rparr>" by simp
  moreover have "notify_callbacks cfg s = s" using True by (simp add: notify_callbacks_def)
  ultimately show ?thesis by metis
next
  case False
  show ?thesis
  proof (cases "history_count_ok cfg s")
    case True
    have "notify_callbacks cfg s
            = s\<lparr>callback_log := notify_loop (unat (callback_count s)) 0 (callbacks s)
                  (stats_snapshot cfg s) (callback_log s), out_of_bounds := out_of_bounds s\<rparr>"
      using \<open>callback_count s \<noteq> 0\<close> by (simp add: notify_callbacks_def get_in_bounds [OF True])
    then show ?thesis by blast
  next
    case False
    have "notify_callbacks cfg s
            = s\<lparr>callback_log := notify_loop (unat (callback_count s)) 0 (callbacks s)
                  (stats_snapshot cfg s) (callback_log s), out_of_bounds := True\<rparr>"
      using \<open>callback_count s \<noteq> 0\<close> by (simp add: notify_callbacks_def get_overrun [OF False])
    then show ?thesis by blast
  qed
qed

lemma notify_callbacks_frame_ok:
  assumes "history_count_ok cfg s \<or> callback_count s = 0"
  shows "\<exists>l. notify_callbacks cfg s = s\<lparr>callback_log := l\<rparr>"
proof (cases "callback_count s = 0")
  case True
  have "s = s\<lparr>callback_log := callback_log s\<rparr>" by simp
  moreover have "notify_callbacks cfg s = s" using True by (simp add: notify_callbacks_def)
  ultimately show ?thesis by metis
next
  case False
  then have ok: "history_count_ok cfg s" using assms by simp
  have "notify_callbacks cfg s
          = s\<lparr>callback_log := notify_loop (unat (callback_count s)) 0 (callbacks s)
                (stats_snapshot cfg s) (callback_log s)\<rparr>"
    using False by (simp add: notify_callbacks_def get_in_bounds [OF ok])
  then show ?thesis by blast
qed

lemma schedule_save_frame:
  "\<exists>w p. schedule_save cfg s = s\<lparr>save_work := w, save_pending := p\<rparr>"
proof (cases "initialized s")
  case True
  then show ?thesis by (auto simp: schedule_save_def)
next
  case False
  have "s = s\<lparr>save_work := save_work s, save_pending := save_pending s\<rparr>" by simp
  then show ?thesis using False unfolding schedule_save_def by metis
qed



lemma check_session_timeout_frame:
  "total_keystrokes (check_session_timeout cfg t s) = total_keystrokes s"
  "today_keystrokes (check_session_timeout cfg t s) = today_keystrokes s"
  "yesterday_keystrokes (check_session_timeout cfg t s) = yesterday_keystrokes s"
  "current_uptime_day (check_session_timeout cfg t s) = current_uptime_day s"
  "daily_history_count (check_session_timeout cfg t s) = daily_history_count s"
  by (simp_all add: check_session_timeout_def Let_def)

lemma update_wpm_frame:
  "total_keystrokes (update_wpm cfg t s) = total_keystrokes s"
  "today_keystrokes (update_wpm cfg t s) = today_keystrokes s"
  "yesterday_keystrokes (update_wpm cfg t s) = yesterday_keystrokes s"
  "current_uptime_day (update_wpm cfg t s) = current_uptime_day s"
  "daily_history_count (update_wpm cfg t s) = daily_history_count s"
  by (simp_all add: update_wpm_def Let_def split: prod.splits)

lemma notify_callbacks_fields:
  "total_keystrokes (notify_callbacks cfg s) = total_keystrokes s"
  "today_keystrokes (notify_callbacks cfg s) = today_keystrokes s"
  "yesterday_keystrokes (notify_callbacks cfg s) = yesterday_keystrokes s"
  "current_uptime_day (notify_callbacks cfg s) = current_uptime_day s"
  "daily_history_count (notify_callbacks cfg s) = daily_history_count s"
  using notify_callbacks_frame [of cfg s] by auto

lemma schedule_save_fields:
  "total_keystrokes (schedule_save cfg s) = total_keystrokes s"
  "today_keystrokes (schedule_save cfg s) = today_keystrokes s"
  "yesterday_keystrokes (schedule_save cfg s) = yesterday_keystrokes s"
  "current_uptime_day (schedule_save cfg s) = current_uptime_day s"
  "daily_history_count (schedule_save cfg s) = daily_history_count s"
  by (simp_all add: schedule_save_def)

lemma listener_not_press:
  "\<not> is_press (eh, up) \<Longrightarrow> keystroke_event_listener cfg eh up s = (ZMK_EV_EVENT_BUBBLE, s)"
  by (simp add: keystroke_event_listener_def as_zmk_keycode_state_changed_def is_press_def
      split: zmk_event.splits)

lemma listener_press_shape:
  "state ev \<Longrightarrow>
   snd (keystroke_event_listener cfg (Keycode_state_changed ev) up s)
     = notify_callbacks cfg (check_day_rollover cfg (up_day up) (before_rollover cfg ev up s))"
  by (simp add: keystroke_event_listener_def as_zmk_keycode_state_changed_def Let_def
      before_rollover_def)

lemma before_rollover_fields:
  "total_keystrokes (before_rollover cfg ev up s) = total_keystrokes s + 1"
  "today_keystrokes (before_rollover cfg ev up s) = today_keystrokes s + 1"
  "yesterday_keystrokes (before_rollover cfg ev up s) = yesterday_keystrokes s"
  "current_uptime_day (before_rollover cfg ev up s) = current_uptime_day s"
  "daily_history_count (before_rollover cfg ev up s) = daily_history_count s"
  by (simp_all add: before_rollover_def Let_def update_wpm_frame check_session_timeout_frame)

lemma check_day_rollover_same_day:
  "get_uptime_day cfg t = current_uptime_day s \<Longrightarrow> check_day_rollover cfg t s = s"
  by (simp add: check_day_rollover_def)

lemma unat_inc_le: "unat (c + 1 :: u8) \<le> unat c + 1"
  by (simp add: unat_word_ariths)

lemma check_day_rollover_count_ok:
  "history_count_ok cfg s \<Longrightarrow> history_count_ok cfg (check_day_rollover cfg t s)"
  unfolding history_count_ok_def check_day_rollover_def Let_def
  using unat_inc_le [of "daily_history_count s"]
  by (auto simp: notify_callbacks_fields schedule_save_fields)

lemma fresh_count_ok: "history_count_ok cfg (fresh cfg t0)"
  by (simp add: fresh_def keystroke_stats_init_def keystroke_stats_load_from_settings_def
      zero_state_def history_count_ok_def Let_def)

lemma listener_count_ok:
  "history_count_ok cfg s \<Longrightarrow>
   history_count_ok cfg (snd (keystroke_event_listener cfg eh up s))"
proof (cases "is_press (eh, up)")
  case False
  assume "history_count_ok cfg s"
  then show ?thesis using False by (simp add: listener_not_press)
next
  case True
  assume ok: "history_count_ok cfg s"
  from True obtain ev where ev: "eh = Keycode_state_changed ev" "state ev"
    by (auto simp: is_press_def split: zmk_event.splits)
  define x where "x = before_rollover cfg ev up s"
  have x: "snd (keystroke_event_listener cfg eh up s)
              = notify_callbacks cfg (check_day_rollover cfg (up_day up) x)"
     "daily_history_count x = daily_history_count s"
    using listener_press_shape [OF ev(2), of cfg up s] ev(1)
    by (simp_all add: x_def before_rollover_fields)
  have "history_count_ok cfg x" using ok x(2) by (simp add: history_count_ok_def)
  then have "history_count_ok cfg (check_day_rollover cfg (up_day up) x)"
    by (rule check_day_rollover_count_ok)
  then show ?thesis by (simp add: x(1) history_count_ok_def notify_callbacks_fields)
qed

lemma load_count_ok:
  "history_count_ok cfg s \<Longrightarrow>
   unat (pd_daily_history_count d) \<le> DAILY_HISTORY_DAYS cfg \<Longrightarrow>
   history_count_ok cfg (snd (zmk_keystroke_stats_load_persist_data cfg (Some d) s))"
  by (simp add: zmk_keystroke_stats_load_persist_data_def Let_def history_count_ok_def
      notify_callbacks_fields)

text \<open>A reset is the field assignments, then a save request and a notification.\<close>

lemma reset_shape:
  "\<exists>w p l. zmk_keystroke_stats_reset cfg t reset_total s
     = (Inr (), (reset_fields_of cfg t reset_total s)
                  \<lparr>save_work := w, save_pending := p, callback_log := l\<rparr>)"
proof -
  define s6 where "s6 = reset_fields_of cfg t reset_total s"
  have r: "zmk_keystroke_stats_reset cfg t reset_total s
             = (Inr (), notify_callbacks cfg (schedule_save cfg s6))"
    by (simp add: zmk_keystroke_stats_reset_def Let_def s6_def reset_fields_of_def)
  obtain w p where sv: "schedule_save cfg s6 = s6\<lparr>save_work := w, save_pending := p\<rparr>"
    using schedule_save_frame by blast
  obtain l where nt: "notify_callbacks cfg (s6\<lparr>save_work := w, save_pending := p\<rparr>)
                        = s6\<lparr>save_work := w, save_pending := p, callback_log := l\<rparr>"
  proof -
    have "history_count_ok cfg (s6\<lparr>save_work := w, save_pending := p\<rparr>)"
      by (simp add: history_count_ok_def s6_def reset_fields_of_def)
    then show ?thesis
      using notify_callbacks_frame_ok [of cfg "s6\<lparr>save_work := w, save_pending := p\<rparr>"]
        that by auto
  qed
  have "zmk_keystroke_stats_reset cfg t reset_total s
          = (Inr (), s6\<lparr>save_work := w, save_pending := p, callback_log := l\<rparr>)"
    by (simp add: r sv nt)
  then show ?thesis unfolding s6_def by blast
qed

lemma reset_count_ok:
  "history_count_ok cfg (snd (zmk_keystroke_stats_reset cfg t reset_total s))"
proof -
  obtain w p l where res:
    "zmk_keystroke_stats_reset cfg t reset_total s
       = (Inr (), (reset_fields_of cfg t reset_total s)
                    \<lparr>save_work := w, save_pending := p, callback_log := l\<rparr>)"
    using reset_shape by blast
  show ?thesis
    unfolding res by (simp add: history_count_ok_def reset_fields_of_def)
qed


text \<open>
  With a rollover hour below 24 the derived day index is at most 49: the 32-bit
  millisecond count covers 1193 hours.
\<close>

lemma sint_diff_small:
  fixes h :: u32
  assumes "uint h \<le> 1193" "r < 24"
  shows "sint (h - of_nat r) = uint h - int r"
proof -
  have e: "h - of_nat r = word_of_int (uint h - int r)"
    by simp
  have "sint (h - of_nat r) = sint (word_of_int (uint h - int r) :: u32)"
    by (simp only: e)
  also have "\<dots> = signed_take_bit (LENGTH(32) - 1) (uint h - int r)"
    by (rule sint_sbintrunc')
  also have "\<dots> = signed_take_bit 31 (uint h - int r)"
    by simp
  also have "\<dots> = uint h - int r"
  proof (rule signed_take_bit_int_eq_self)
    have "(- (2 ^ 31) :: int) \<le> - 24" by simp
    moreover have "0 \<le> uint h" by simp
    moreover have "int r < 24" using assms(2) by simp
    ultimately show "- (2 ^ 31) \<le> uint h - int r" by linarith
    show "uint h - int r < 2 ^ 31"
      using assms(1) by simp
  qed
  finally show ?thesis .
qed

lemma get_uptime_day_le_49:
  assumes "DAY_ROLLOVER_HOUR cfg < 24"
  shows "unat (get_uptime_day cfg t) \<le> 49"
proof -
  define h where "h = (ucast t :: u32) div 3600000"
  have hb: "uint h \<le> 1193"
  proof -
    have "uint (ucast t :: u32) < 2 ^ 32"
      using unsigned_less [of "ucast t :: u32", where 'a = int] by simp
    then have "uint (ucast t :: u32) div 3600000 \<le> 1193" by simp
    then show ?thesis by (simp add: h_def uint_div)
  qed
  define r where "r = DAY_ROLLOVER_HOUR cfg"
  have rb: "r < 24" using assms by (simp add: r_def)
  note s = sint_diff_small [OF hb rb]
  define a where "a = (if uint h - int r < 0 then 0 else uint h - int r)"
  have ab: "0 \<le> a" "a \<le> 1193" using hb by (auto simp: a_def)
  have g: "get_uptime_day cfg t = word_of_int (a div 24)"
    by (simp add: get_uptime_day_def Let_def h_def [symmetric] r_def [symmetric] s a_def)
  have b: "a div 24 \<le> 49" "0 \<le> a div 24" using ab by simp_all
  then have "uint (word_of_int (a div 24) :: u16) = a div 24"
    by (simp add: uint_word_of_int)
  then have "unat (word_of_int (a div 24) :: u16) = nat (a div 24)"
    by (simp add: unat_eq_nat_uint)
  then show ?thesis using b by (simp add: g)
qed

section \<open>Reading a snapshot has no effect on the state\<close>

lemma import_into_fresh:
  "pd_version d = PERSIST_DATA_VERSION \<Longrightarrow>
   zmk_keystroke_stats_load_persist_data cfg (Some d) (fresh cfg t0)
     = (Inr (),
        (fresh cfg t0)
          \<lparr>total_keystrokes := pd_total_keystrokes d,
            today_keystrokes := pd_today_keystrokes d,
            yesterday_keystrokes := pd_yesterday_keystrokes d,
            current_uptime_day := pd_current_uptime_day d,
            peak_wpm := pd_peak_wpm d,
            total_typing_time_ms := pd_total_typing_time_ms d,
            key_counts := pd_key_counts d,
            daily_history := pd_daily_history d,
            daily_history_count := pd_daily_history_count d\<rparr>)"
proof -
  have c: "callback_count (fresh cfg t0) = 0"
    by (simp add: fresh_def keystroke_stats_init_def keystroke_stats_load_from_settings_def
        zero_state_def Let_def)
  assume "pd_version d = PERSIST_DATA_VERSION"
  then show ?thesis
    by (simp add: zmk_keystroke_stats_load_persist_data_def Let_def notify_callbacks_def c)
qed

lemma fresh_flags:
  "\<not> out_of_bounds (fresh cfg t0)" "callback_count (fresh cfg t0) = 0"
  "length (callbacks (fresh cfg t0)) = CALLBACKS_SIZE"
  "length (daily_history (fresh cfg t0)) = DAILY_HISTORY_DAYS cfg"
  "daily_history_count (fresh cfg t0) = 0" "initialized (fresh cfg t0)"
  by (simp_all add: fresh_def keystroke_stats_init_def keystroke_stats_load_from_settings_def
      zero_state_def Let_def)

lemma state_count200_fields:
  "daily_history_count state_count200 = 200" "\<not> out_of_bounds state_count200"
  "callback_count state_count200 = 0"
  "length (callbacks state_count200) = CALLBACKS_SIZE"
proof -
  have v: "pd_version snapshot_count200 = PERSIST_DATA_VERSION"
    by (simp add: snapshot_count200_def snapshot0_def PERSIST_DATA_VERSION_def)
  show "daily_history_count state_count200 = 200" "\<not> out_of_bounds state_count200"
    "callback_count state_count200 = 0"
    "length (callbacks state_count200) = CALLBACKS_SIZE"
    by (simp_all add: state_count200_def import_into_fresh [OF v] fresh_flags)
      (simp add: snapshot_count200_def)
qed

lemma notify_callbacks_overrun:
  "callback_count s \<noteq> 0 \<Longrightarrow> \<not> history_count_ok cfg s \<Longrightarrow>
   out_of_bounds (notify_callbacks cfg s)"
  by (simp add: notify_callbacks_def get_overrun)

text \<open>
  Claim C9, as the code has it. For every engine state whose history count is within the
  configured capacity, and every non-null output pointer, \<^verbatim>\<open>zmk_keystroke_stats_get\<close>
  returns success, with the snapshot written through the pointer, and the engine state
  after the call is the state before it, field for field.
\<close>

theorem get_is_pure_read:
  assumes "history_count_ok cfg s"
  shows "snd (zmk_keystroke_stats_get cfg (Some out) s) = s \<and>
         fst (zmk_keystroke_stats_get cfg (Some out) s) = Inr (stats_snapshot cfg s)"
  using assms by (simp add: get_in_bounds)

theorem get_is_pure_read_witness:
  "history_count_ok cfg0 state_full \<and>
   zmk_keystroke_stats_get cfg0 (Some zero_stats) state_full
     = (Inr (stats_snapshot cfg0 state_full), state_full)"
proof -
  have h: "history_count_ok cfg0 state_full"
    by (simp add: history_count_ok_def state_full_def cfg0_def)
  show ?thesis
    using h get_is_pure_read [OF h, of zero_stats] by (simp add: prod_eq_iff)
qed

text \<open>
  For every engine state the claim fails. The import stores the history count of an
  accepted snapshot unchecked, so the count can exceed the capacity; the copy loop of
  \<^verbatim>\<open>zmk_keystroke_stats_get\<close> then runs to the count and writes entries 7 to 199 past
  the seven entries of the caller's array.
\<close>

theorem get_overrun_counterexample:
  "unat (daily_history_count state_count200) = 200 \<and> DAILY_HISTORY_DAYS cfg0 = 7 \<and>
   \<not> out_of_bounds state_count200 \<and>
   out_of_bounds (snd (zmk_keystroke_stats_get cfg0 (Some zero_stats) state_count200)) \<and>
   snd (zmk_keystroke_stats_get cfg0 (Some zero_stats) state_count200) \<noteq> state_count200"
proof -
  have n: "\<not> history_count_ok cfg0 state_count200"
    by (simp add: history_count_ok_def state_count200_fields) (simp add: cfg0_def)
  have o: "out_of_bounds (snd (zmk_keystroke_stats_get cfg0 (Some zero_stats) state_count200))"
    by (simp add: get_overrun [OF n])
  have d: "snd (zmk_keystroke_stats_get cfg0 (Some zero_stats) state_count200)
             \<noteq> state_count200"
    using o state_count200_fields(2) by auto
  show ?thesis
    using o d by (simp add: state_count200_fields) (simp add: cfg0_def)
qed

section \<open>Persistence round trip and rejected imports\<close>

text \<open>
  Claim C3, as the code has it. Take an engine state \<open>s\<close> and a state \<open>t\<close> to import
  into (\<open>s\<close> itself for an import right after the export), such that the history count
  of \<open>s\<close> is within the capacity or no callback is registered in \<open>t\<close>. The export from
  \<open>s\<close> leaves \<open>s\<close> alone and tags the snapshot with the supported version; the import
  of that snapshot into \<open>t\<close> succeeds, and afterwards the total, today and yesterday
  counters and the stored day index are those of \<open>s\<close>, as are the peak speed, the
  typing time, the heatmap and the history; nothing else of \<open>t\<close> but the log of
  callback invocations changes.
\<close>

theorem persist_roundtrip:
  assumes "history_count_ok cfg s \<or> callback_count t = 0"
  shows "\<exists>d t'. zmk_keystroke_stats_get_persist_data (Some old) s = (Inr d, s) \<and>
      pd_version d = PERSIST_DATA_VERSION \<and>
      zmk_keystroke_stats_load_persist_data cfg (Some d) t = (Inr (), t') \<and>
      total_keystrokes t' = total_keystrokes s \<and>
      today_keystrokes t' = today_keystrokes s \<and>
      yesterday_keystrokes t' = yesterday_keystrokes s \<and>
      current_uptime_day t' = current_uptime_day s \<and>
      t' = t\<lparr>total_keystrokes := total_keystrokes s,
              today_keystrokes := today_keystrokes s,
              yesterday_keystrokes := yesterday_keystrokes s,
              current_uptime_day := current_uptime_day s,
              peak_wpm := peak_wpm s,
              total_typing_time_ms := total_typing_time_ms s,
              key_counts := key_counts s,
              daily_history := daily_history s,
              daily_history_count := daily_history_count s,
              callback_log := callback_log t'\<rparr>"
proof -
  let ?d = "old\<lparr>pd_version := PERSIST_DATA_VERSION,
                    pd_total_keystrokes := total_keystrokes s,
                    pd_today_keystrokes := today_keystrokes s,
                    pd_yesterday_keystrokes := yesterday_keystrokes s,
                    pd_current_uptime_day := current_uptime_day s,
                    pd_peak_wpm := peak_wpm s,
                    pd_total_typing_time_ms := total_typing_time_ms s,
                    pd_key_counts := key_counts s,
                    pd_daily_history := daily_history s,
                    pd_daily_history_count := daily_history_count s\<rparr>"
  define t4 where "t4 = t\<lparr>total_keystrokes := total_keystrokes s,
              today_keystrokes := today_keystrokes s,
              yesterday_keystrokes := yesterday_keystrokes s,
              current_uptime_day := current_uptime_day s,
              peak_wpm := peak_wpm s,
              total_typing_time_ms := total_typing_time_ms s,
              key_counts := key_counts s,
              daily_history := daily_history s,
              daily_history_count := daily_history_count s\<rparr>"
  have g: "zmk_keystroke_stats_get_persist_data (Some old) s = (Inr ?d, s)"
    by (simp add: zmk_keystroke_stats_get_persist_data_def)
  have "history_count_ok cfg t4 \<or> callback_count t4 = 0"
    using assms by (simp add: t4_def history_count_ok_def)
  then obtain l where l: "notify_callbacks cfg t4 = t4\<lparr>callback_log := l\<rparr>"
    using notify_callbacks_frame_ok by blast
  have ld: "zmk_keystroke_stats_load_persist_data cfg (Some ?d) t
              = (Inr (), t4\<lparr>callback_log := l\<rparr>)"
    by (simp add: zmk_keystroke_stats_load_persist_data_def Let_def l [unfolded t4_def]
        t4_def)
  show ?thesis
    using g ld
    by (intro exI [of _ ?d] exI [of _ "t4\<lparr>callback_log := l\<rparr>"]) (simp add: t4_def)
qed

theorem persist_roundtrip_witness:
  "history_count_ok cfg0 state_full \<and>
   total_keystrokes
     (snd (zmk_keystroke_stats_load_persist_data cfg0
        (Some (projr (fst (zmk_keystroke_stats_get_persist_data (Some snapshot0) state_full))))
        (fresh cfg0 0))) = 75 \<and>
   today_keystrokes
     (snd (zmk_keystroke_stats_load_persist_data cfg0
        (Some (projr (fst (zmk_keystroke_stats_get_persist_data (Some snapshot0) state_full))))
        (fresh cfg0 0))) = 5 \<and>
   current_uptime_day
     (snd (zmk_keystroke_stats_load_persist_data cfg0
        (Some (projr (fst (zmk_keystroke_stats_get_persist_data (Some snapshot0) state_full))))
        (fresh cfg0 0))) = 8 \<and>
   fst (zmk_keystroke_stats_load_persist_data cfg0
        (Some (projr (fst (zmk_keystroke_stats_get_persist_data (Some snapshot0) state_full))))
        state_full) = Inr ()"
proof -
  have h: "history_count_ok cfg0 state_full"
    by (simp add: history_count_ok_def state_full_def cfg0_def)
  have v: "total_keystrokes state_full = 75" "today_keystrokes state_full = 5"
    "current_uptime_day state_full = 8"
    by (simp_all add: state_full_def)
  obtain d t' where a:
    "zmk_keystroke_stats_get_persist_data (Some snapshot0) state_full = (Inr d, state_full)"
    "zmk_keystroke_stats_load_persist_data cfg0 (Some d) (fresh cfg0 0) = (Inr (), t')"
    "total_keystrokes t' = total_keystrokes state_full"
    "today_keystrokes t' = today_keystrokes state_full"
    "current_uptime_day t' = current_uptime_day state_full"
    using persist_roundtrip [of cfg0 state_full "fresh cfg0 0" snapshot0] h by blast
  obtain d2 t2 where b:
    "zmk_keystroke_stats_get_persist_data (Some snapshot0) state_full = (Inr d2, state_full)"
    "zmk_keystroke_stats_load_persist_data cfg0 (Some d2) state_full = (Inr (), t2)"
    using persist_roundtrip [of cfg0 state_full state_full snapshot0] h by blast
  show ?thesis using a b h by (simp add: v)
qed

text \<open>
  For every engine state the claim fails. In the state reached by an accepted import of
  history count 200 followed by the registration of a handler, the import of the
  engine's own export notifies the handler, and the snapshot taken for it writes past the
  seven entries of the history array of that snapshot.
\<close>

theorem persist_roundtrip_counterexample:
  "unat (daily_history_count state_count200_cb) = 200 \<and> DAILY_HISTORY_DAYS cfg0 = 7 \<and>
   registered state_count200_cb = [\<lparr>callback = 7, user_data = 0\<rparr>] \<and>
   \<not> out_of_bounds state_count200_cb \<and>
   out_of_bounds
     (snd (zmk_keystroke_stats_load_persist_data cfg0
        (Some (projr (fst (zmk_keystroke_stats_get_persist_data (Some snapshot0)
                             state_count200_cb))))
        state_count200_cb))"
proof -
  have cb: "state_count200_cb
      = state_count200\<lparr>callbacks := (callbacks state_count200)
                                       [0 := \<lparr>callback = 7, user_data = 0\<rparr>],
                        callback_count := 1\<rparr>"
    by (simp add: state_count200_cb_def zmk_keystroke_stats_register_callback_def
        state_count200_fields CALLBACKS_SIZE_def)
  have f: "daily_history_count state_count200_cb = 200" "\<not> out_of_bounds state_count200_cb"
    "callback_count state_count200_cb = 1"
    by (simp_all add: cb state_count200_fields)
  have r: "registered state_count200_cb = [\<lparr>callback = 7, user_data = 0\<rparr>]"
  proof -
    have "length (callbacks state_count200) = 4"
      by (simp add: state_count200_fields CALLBACKS_SIZE_def)
    then obtain a b c d where "callbacks state_count200 = [a, b, c, d]"
      by (auto simp: length_Suc_conv numeral_eq_Suc)
    then show ?thesis by (simp add: registered_def cb)
  qed
  define d where "d = projr (fst (zmk_keystroke_stats_get_persist_data (Some snapshot0)
                             state_count200_cb))"
  have dv: "pd_version d = PERSIST_DATA_VERSION" "pd_daily_history_count d = 200"
    by (simp_all add: d_def zmk_keystroke_stats_get_persist_data_def f)
  define t4 where "t4 = state_count200_cb
            \<lparr>total_keystrokes := pd_total_keystrokes d,
              today_keystrokes := pd_today_keystrokes d,
              yesterday_keystrokes := pd_yesterday_keystrokes d,
              current_uptime_day := pd_current_uptime_day d,
              peak_wpm := pd_peak_wpm d,
              total_typing_time_ms := pd_total_typing_time_ms d,
              key_counts := pd_key_counts d,
              daily_history := pd_daily_history d,
              daily_history_count := pd_daily_history_count d\<rparr>"
  have ld: "snd (zmk_keystroke_stats_load_persist_data cfg0 (Some d) state_count200_cb)
              = notify_callbacks cfg0 t4"
    by (simp add: zmk_keystroke_stats_load_persist_data_def Let_def dv t4_def)
  have "callback_count t4 \<noteq> 0" by (simp add: t4_def f)
  moreover have "\<not> history_count_ok cfg0 t4"
    by (simp add: history_count_ok_def t4_def dv) (simp add: cfg0_def)
  ultimately have "out_of_bounds (notify_callbacks cfg0 t4)"
    by (rule notify_callbacks_overrun)
  then have o: "out_of_bounds
     (snd (zmk_keystroke_stats_load_persist_data cfg0 (Some d) state_count200_cb))"
    by (simp add: ld)
  show ?thesis
    using o r f(2) unfolding d_def by (simp add: f) (simp add: cfg0_def)
qed

text \<open>
  Claim C4. An import of a snapshot whose version field is not the supported version
  fails and leaves the whole engine state as it was. The code reports the incompatible
  format as \<^verbatim>\<open>-EINVAL\<close>.
\<close>

theorem load_rejects_other_version:
  "pd_version d \<noteq> PERSIST_DATA_VERSION \<Longrightarrow>
   zmk_keystroke_stats_load_persist_data cfg (Some d) s = (Inl EINVAL, s)"
  by (simp add: zmk_keystroke_stats_load_persist_data_def)

theorem load_rejects_other_version_witness:
  "pd_version snapshot_v2 \<noteq> PERSIST_DATA_VERSION \<and>
   zmk_keystroke_stats_load_persist_data cfg0 (Some snapshot_v2) (fresh cfg0 0)
     = (Inl EINVAL, fresh cfg0 0)"
proof -
  have h: "pd_version snapshot_v2 \<noteq> PERSIST_DATA_VERSION"
    by (simp add: snapshot_v2_def PERSIST_DATA_VERSION_def)
  show ?thesis
    using h load_rejects_other_version [OF h, of cfg0 "fresh cfg0 0"] by simp
qed

section \<open>Counting key presses\<close>

lemma fresh_fields:
  "total_keystrokes (fresh cfg t0) = 0"
  "today_keystrokes (fresh cfg t0) = 0"
  "yesterday_keystrokes (fresh cfg t0) = 0"
  "current_uptime_day (fresh cfg t0) = get_uptime_day cfg t0"
  by (simp_all add: fresh_def keystroke_stats_init_def keystroke_stats_load_from_settings_def
      zero_state_def Let_def)

lemma listener_press_no_rollover:
  assumes "is_press (eh, up)" "get_uptime_day cfg (up_day up) = current_uptime_day s"
  shows "total_keystrokes (snd (keystroke_event_listener cfg eh up s)) = total_keystrokes s + 1"
    "today_keystrokes (snd (keystroke_event_listener cfg eh up s)) = today_keystrokes s + 1"
    "yesterday_keystrokes (snd (keystroke_event_listener cfg eh up s)) = yesterday_keystrokes s"
    "current_uptime_day (snd (keystroke_event_listener cfg eh up s)) = current_uptime_day s"
proof -
  from assms(1) obtain ev where ev: "eh = Keycode_state_changed ev" "state ev"
    by (auto simp: is_press_def split: zmk_event.splits)
  define x where "x = before_rollover cfg ev up s"
  have x: "snd (keystroke_event_listener cfg eh up s)
              = notify_callbacks cfg (check_day_rollover cfg (up_day up) x)"
     "total_keystrokes x = total_keystrokes s + 1"
     "today_keystrokes x = today_keystrokes s + 1"
     "yesterday_keystrokes x = yesterday_keystrokes s"
     "current_uptime_day x = current_uptime_day s"
    using listener_press_shape [OF ev(2), of cfg up s] ev(1)
    by (simp_all add: x_def before_rollover_fields)
  have same: "check_day_rollover cfg (up_day up) x = x"
    using assms(2) x(5) by (simp add: check_day_rollover_same_day)
  show "total_keystrokes (snd (keystroke_event_listener cfg eh up s)) = total_keystrokes s + 1"
    "today_keystrokes (snd (keystroke_event_listener cfg eh up s)) = today_keystrokes s + 1"
    "yesterday_keystrokes (snd (keystroke_event_listener cfg eh up s)) = yesterday_keystrokes s"
    "current_uptime_day (snd (keystroke_event_listener cfg eh up s)) = current_uptime_day s"
    by (simp_all add: x same notify_callbacks_fields)
qed

lemma process_events_counters:
  assumes "\<forall>p \<in> set evs. is_press p \<longrightarrow> get_uptime_day cfg (up_day (snd p)) = current_uptime_day s"
  shows "total_keystrokes (process_events cfg evs s)
           = total_keystrokes s + of_nat (length (filter is_press evs)) \<and>
         today_keystrokes (process_events cfg evs s)
           = today_keystrokes s + of_nat (length (filter is_press evs)) \<and>
         yesterday_keystrokes (process_events cfg evs s) = yesterday_keystrokes s \<and>
         current_uptime_day (process_events cfg evs s) = current_uptime_day s"
  using assms
proof (induction evs arbitrary: s)
  case Nil
  then show ?case by simp
next
  case (Cons p evs)
  obtain eh up where p: "p = (eh, up)" by (cases p)
  show ?case
  proof (cases "is_press p")
    case False
    then have "snd (keystroke_event_listener cfg eh up s) = s"
      by (simp add: p listener_not_press)
    then show ?thesis using Cons False by (simp add: p)
  next
    case True
    let ?s = "snd (keystroke_event_listener cfg eh up s)"
    have d: "get_uptime_day cfg (up_day up) = current_uptime_day s"
      using Cons.prems True by (simp add: p)
    note st = listener_press_no_rollover [OF True [unfolded p] d]
    have "\<forall>q \<in> set evs. is_press q \<longrightarrow> get_uptime_day cfg (up_day (snd q)) = current_uptime_day ?s"
      using Cons.prems by (simp add: st)
    from Cons.IH [OF this] show ?thesis
      using True by (simp add: p st add.assoc)
  qed
qed

text \<open>
  Claim C1. Start from the engine as initialised at uptime \<open>t0\<close> with nothing stored (all
  counters zero) and run the listener over any sequence of events such that no pressed
  key sees a derived day other than the day of initialisation (no rollover). With \<open>n\<close>
  pressed keys in the sequence, the total and today counters both hold \<open>n\<close> (as 32-bit
  counters; numerically \<open>n\<close> whenever \<open>n\<close> fits 32 bits) and the yesterday counter is 0.
  An event that is not a key press (a release, or an event of another type) leaves the
  whole state, so every counter, unchanged.
\<close>

theorem counters_without_rollover:
  assumes "\<forall>p \<in> set evs. is_press p \<longrightarrow>
             get_uptime_day cfg (up_day (snd p)) = get_uptime_day cfg t0"
  shows "(let s' = process_events cfg evs (fresh cfg t0);
              n = length (filter is_press evs)
          in total_keystrokes s' = of_nat n \<and> today_keystrokes s' = of_nat n \<and>
             yesterday_keystrokes s' = 0 \<and>
             (n < 2 ^ 32 \<longrightarrow>
                unat (total_keystrokes s') = n \<and> unat (today_keystrokes s') = n)) \<and>
         (\<forall>eh up s. \<not> is_press (eh, up) \<longrightarrow>
            keystroke_event_listener cfg eh up s = (ZMK_EV_EVENT_BUBBLE, s))"
proof -
  have "\<forall>p \<in> set evs. is_press p \<longrightarrow>
          get_uptime_day cfg (up_day (snd p)) = current_uptime_day (fresh cfg t0)"
    using assms by (simp add: fresh_fields)
  from process_events_counters [OF this]
  show ?thesis
    by (auto simp: Let_def fresh_fields listener_not_press unat_of_nat)
qed

theorem counters_without_rollover_witness:
  "total_keystrokes (process_events cfg0 events0 (fresh cfg0 0)) = 2 \<and>
   today_keystrokes (process_events cfg0 events0 (fresh cfg0 0)) = 2 \<and>
   yesterday_keystrokes (process_events cfg0 events0 (fresh cfg0 0)) = 0 \<and>
   keystroke_event_listener cfg0 (release 1) (reads_at 1100) (fresh cfg0 0)
     = (ZMK_EV_EVENT_BUBBLE, fresh cfg0 0)"
proof -
  have d: "get_uptime_day cfg0 1000 = 0" "get_uptime_day cfg0 2000 = 0"
    "get_uptime_day cfg0 0 = 0"
    by (simp_all add: get_uptime_day_def cfg0_def)
  have h: "\<forall>p \<in> set events0. is_press p \<longrightarrow>
             get_uptime_day cfg0 (up_day (snd p)) = get_uptime_day cfg0 0"
    by (simp add: events0_def reads_at_def d is_press_def press_def release_def)
  have n: "length (filter is_press events0) = 2"
    by (simp add: events0_def is_press_def press_def release_def)
  have r: "\<not> is_press (release 1, reads_at 1100)"
    by (simp add: is_press_def release_def)
  show ?thesis
    using counters_without_rollover [OF h] r by (simp add: Let_def n)
qed

section \<open>Reset\<close>

text \<open>
  Claim C5. A reset always returns success. Whatever the flag, afterwards today's and
  yesterday's counters are 0, the session keystroke counter is 0 (the session start is
  set to the current uptime), current, average and peak WPM are 0, the WPM window holds no
  entry (count and head are 0), every heatmap counter is 0 and the daily history is empty
  and cleared. The total counter is unchanged when the flag is false and 0 when it is
  true.
\<close>

theorem reset_semantics:
  "fst (zmk_keystroke_stats_reset cfg t reset_total s) = Inr () \<and>
   (let s' = snd (zmk_keystroke_stats_reset cfg t reset_total s)
    in today_keystrokes s' = 0 \<and> yesterday_keystrokes s' = 0 \<and>
       session_keystrokes s' = 0 \<and> session_start_time s' = ucast t \<and>
       current_wpm s' = 0 \<and> average_wpm s' = 0 \<and> peak_wpm s' = 0 \<and>
       wpm_window_count s' = 0 \<and> wpm_window_head s' = 0 \<and> window_entries s' = [] \<and>
       key_counts s' = replicate (MAX_KEY_POSITIONS cfg) 0 \<and>
       daily_history_count s' = 0 \<and> history_entries s' = [] \<and>
       daily_history s' = replicate (DAILY_HISTORY_DAYS cfg) zero_daily_entry \<and>
       total_keystrokes s' = (if reset_total then 0 else total_keystrokes s))"
proof -
  obtain w p l where res:
    "zmk_keystroke_stats_reset cfg t reset_total s
       = (Inr (), (reset_fields_of cfg t reset_total s)
                    \<lparr>save_work := w, save_pending := p, callback_log := l\<rparr>)"
    using reset_shape by blast
  show ?thesis
    unfolding res
    by (simp add: Let_def window_entries_def history_entries_def reset_fields_of_def)
qed

section \<open>The bound on the history count\<close>

text \<open>
  Claim C10, as the code has it. The count of the daily history is at most the configured
  capacity after initialisation with nothing stored, and this is preserved by the
  listener (so by a rollover in its append branch and in its evict branch), by the
  rollover check itself, by reset, and by an import of a snapshot that is either rejected
  or carries a history count within the capacity. A snapshot that the engine exported
  from a state within the bound is such a snapshot.
\<close>

theorem history_count_invariant:
  "history_count_ok cfg (fresh cfg t0) \<and>
   (history_count_ok cfg s \<longrightarrow>
      history_count_ok cfg (snd (keystroke_event_listener cfg eh up s)) \<and>
      history_count_ok cfg (check_day_rollover cfg t s)) \<and>
   history_count_ok cfg (snd (zmk_keystroke_stats_reset cfg t reset_total s)) \<and>
   (history_count_ok cfg s \<and>
    (pd_version d = PERSIST_DATA_VERSION \<longrightarrow>
       unat (pd_daily_history_count d) \<le> DAILY_HISTORY_DAYS cfg) \<longrightarrow>
      history_count_ok cfg (snd (zmk_keystroke_stats_load_persist_data cfg (Some d) s))) \<and>
   (history_count_ok cfg s \<and> history_count_ok cfg s0 \<longrightarrow>
      (\<forall>d'. fst (zmk_keystroke_stats_get_persist_data (Some old) s0) = Inr d' \<longrightarrow>
         history_count_ok cfg (snd (zmk_keystroke_stats_load_persist_data cfg (Some d') s))))"
proof -
  have rst: "history_count_ok cfg (snd (zmk_keystroke_stats_reset cfg t reset_total s))"
    by (rule reset_count_ok)
  have ld: "history_count_ok cfg (snd (zmk_keystroke_stats_load_persist_data cfg (Some d) s))"
    if "history_count_ok cfg s"
      "pd_version d = PERSIST_DATA_VERSION \<longrightarrow>
         unat (pd_daily_history_count d) \<le> DAILY_HISTORY_DAYS cfg" for d
  proof (cases "pd_version d = PERSIST_DATA_VERSION")
    case True
    then show ?thesis using that by (simp add: load_count_ok)
  next
    case False
    then show ?thesis using that(1) by (simp add: zmk_keystroke_stats_load_persist_data_def)
  qed
  have ex: "history_count_ok cfg (snd (zmk_keystroke_stats_load_persist_data cfg (Some d') s))"
    if "history_count_ok cfg s" "history_count_ok cfg s0"
      "fst (zmk_keystroke_stats_get_persist_data (Some old) s0) = Inr d'" for d'
  proof -
    have "pd_daily_history_count d' = daily_history_count s0"
      using that(3) by (auto simp: zmk_keystroke_stats_get_persist_data_def)
    then show ?thesis using that(1,2) by (intro ld) (simp_all add: history_count_ok_def)
  qed
  have lst: "history_count_ok cfg s \<longrightarrow>
      history_count_ok cfg (snd (keystroke_event_listener cfg eh up s)) \<and>
      history_count_ok cfg (check_day_rollover cfg t s)"
    by (simp add: listener_count_ok check_day_rollover_count_ok)
  have l1: "history_count_ok cfg s \<and>
    (pd_version d = PERSIST_DATA_VERSION \<longrightarrow>
       unat (pd_daily_history_count d) \<le> DAILY_HISTORY_DAYS cfg) \<longrightarrow>
      history_count_ok cfg (snd (zmk_keystroke_stats_load_persist_data cfg (Some d) s))"
    using ld by simp
  have l2: "history_count_ok cfg s \<and> history_count_ok cfg s0 \<longrightarrow>
      (\<forall>d'. fst (zmk_keystroke_stats_get_persist_data (Some old) s0) = Inr d' \<longrightarrow>
         history_count_ok cfg (snd (zmk_keystroke_stats_load_persist_data cfg (Some d') s)))"
    using ex by simp
  show ?thesis
    by (intro conjI fresh_count_ok rst lst l1 l2)
qed

theorem history_count_invariant_witness:
  "history_count_ok cfg0 (fresh cfg0 0) \<and>
   history_count_ok cfg0
     (snd (keystroke_event_listener cfg0 (press 1) (reads_at 86400000) (fresh cfg0 0))) \<and>
   history_count_ok cfg0
     (snd (zmk_keystroke_stats_load_persist_data cfg0 (Some snapshot0) (fresh cfg0 0)))"
proof -
  have c: "pd_version snapshot0 = PERSIST_DATA_VERSION \<longrightarrow>
             unat (pd_daily_history_count snapshot0) \<le> DAILY_HISTORY_DAYS cfg0"
    by (simp add: snapshot0_def cfg0_def)
  note inst = history_count_invariant [of cfg0 0 "fresh cfg0 0" "press 1" "reads_at 86400000"
        0 False snapshot0 "fresh cfg0 0" snapshot0]
  from inst have f: "history_count_ok cfg0 (fresh cfg0 0)" by (rule conjunct1)
  from inst f c show ?thesis by simp
qed

text \<open>
  As stated for every accepted snapshot the bound fails: a snapshot of the supported
  version with a history count of 200 is accepted by the import, which stores the count
  unchecked, while the capacity is 7.
\<close>

theorem load_breaks_history_count:
  "pd_version snapshot_count200 = PERSIST_DATA_VERSION \<and>
   history_count_ok cfg0 (fresh cfg0 0) \<and>
   fst (zmk_keystroke_stats_load_persist_data cfg0 (Some snapshot_count200) (fresh cfg0 0))
     = Inr () \<and>
   \<not> history_count_ok cfg0
       (snd (zmk_keystroke_stats_load_persist_data cfg0 (Some snapshot_count200) (fresh cfg0 0)))"
proof -
  have v: "pd_version snapshot_count200 = PERSIST_DATA_VERSION"
    by (simp add: snapshot_count200_def snapshot0_def PERSIST_DATA_VERSION_def)
  have c: "daily_history_count
             (snd (zmk_keystroke_stats_load_persist_data cfg0 (Some snapshot_count200)
                (fresh cfg0 0))) = 200"
    by (simp add: zmk_keystroke_stats_load_persist_data_def Let_def v notify_callbacks_fields)
      (simp add: snapshot_count200_def)
  have r: "fst (zmk_keystroke_stats_load_persist_data cfg0 (Some snapshot_count200)
                (fresh cfg0 0)) = Inr ()"
    by (simp add: zmk_keystroke_stats_load_persist_data_def Let_def v)
  have n: "\<not> history_count_ok cfg0
       (snd (zmk_keystroke_stats_load_persist_data cfg0 (Some snapshot_count200) (fresh cfg0 0)))"
    by (simp add: history_count_ok_def c) (simp add: cfg0_def)
  show ?thesis using v r n fresh_count_ok [of cfg0 0] by simp
qed

section \<open>Day rollover\<close>


lemma rollover_append:
  fixes c :: u8
  assumes "unat c < n" "n \<le> 255" "length h = n"
  shows "take (unat (c + 1)) (h[unat c := e]) = take (unat c) h @ [e]"
    and "unat (c + 1) = unat c + 1"
proof -
  show u: "unat (c + 1) = unat c + 1"
    using assms(1,2) by (simp add: unat_word_ariths)
  show "take (unat (c + 1)) (h[unat c := e]) = take (unat c) h @ [e]"
    using assms(1,3) by (simp add: u take_Suc_conv_app_nth)
qed






section \<open>The callback registry\<close>

lemma length_shift_callbacks: "length (shift_callbacks n j cbs) = length cbs"
  by (induction n j cbs rule: shift_callbacks.induct)
    (subst shift_callbacks.simps, simp)

lemma shift_callbacks_eq:
  "Suc j \<le> n \<Longrightarrow> n \<le> length cbs \<Longrightarrow>
   shift_callbacks n j cbs
     = take j cbs @ drop (Suc j) (take n cbs) @ [cbs ! (n - 1)] @ drop n cbs"
proof (induction n j cbs rule: shift_callbacks.induct)
  case (1 n j cbs)
  show ?case
  proof (cases "Suc j < n")
    case True
    let ?c = "cbs[j := cbs ! Suc j]"
    have "shift_callbacks n j cbs = shift_callbacks n (Suc j) ?c"
      using True by (subst shift_callbacks.simps) simp
    also have "\<dots> = take (Suc j) ?c @ drop (Suc (Suc j)) (take n ?c) @ [?c ! (n - 1)] @ drop n ?c"
      using 1(1) [OF True] True 1(3) by simp
    also have "take (Suc j) ?c = take j cbs @ [cbs ! Suc j]"
      using True 1(3) by (simp add: take_Suc_conv_app_nth)
    also have "drop (Suc (Suc j)) (take n ?c) = drop (Suc (Suc j)) (take n cbs)"
      by (simp add: take_update_swap)
    also have "?c ! (n - 1) = cbs ! (n - 1)"
      using True by simp
    also have "drop n ?c = drop n cbs"
      using True by simp
    also have "(take j cbs @ [cbs ! Suc j]) @ drop (Suc (Suc j)) (take n cbs) @ [cbs ! (n - 1)] @ drop n cbs
        = take j cbs @ drop (Suc j) (take n cbs) @ [cbs ! (n - 1)] @ drop n cbs"
    proof -
      have "drop (Suc j) (take n cbs) = cbs ! Suc j # drop (Suc (Suc j)) (take n cbs)"
        using True 1(3) by (simp add: Cons_nth_drop_Suc [symmetric])
      then show ?thesis by simp
    qed
    finally show ?thesis .
  next
    case False
    with 1(2) have n: "n = Suc j" by simp
    have "cbs = take j cbs @ [cbs ! j] @ drop (Suc j) cbs"
      using 1(3) n by (simp add: id_take_nth_drop [symmetric])
    then show ?thesis
      using False n by (subst shift_callbacks.simps) simp
  qed
qed

lemma registered_after_shift:
  assumes "i < n" "n \<le> length cbs"
  shows "take (n - 1) (shift_callbacks n i cbs) = take i (take n cbs) @ drop (Suc i) (take n cbs)"
proof -
  have l: "length (take i cbs @ drop (Suc i) (take n cbs)) = n - 1"
    using assms by simp
  have "shift_callbacks n i cbs
          = (take i cbs @ drop (Suc i) (take n cbs)) @ [cbs ! (n - 1)] @ drop n cbs"
    using shift_callbacks_eq [of i n cbs] assms by simp
  then have "take (n - 1) (shift_callbacks n i cbs) = take i cbs @ drop (Suc i) (take n cbs)"
    using l by (metis append_eq_conv_conj)
  then show ?thesis using assms by (simp add: min_def)
qed

lemma unregister_from_spec:
  assumes "callbacks_wf s" "i \<le> unat (callback_count s)"
  shows "if cb \<in> callback ` set (drop i (registered s))
         then fst (unregister_from i cb s) = Inr () \<and>
              registered (snd (unregister_from i cb s))
                = take i (registered s) @ remove_handler cb (drop i (registered s)) \<and>
              callbacks_wf (snd (unregister_from i cb s))
         else unregister_from i cb s = (Inl ENOENT, s)"
  using assms
proof (induction i cb s rule: unregister_from.induct)
  case (1 i cb s)
  define n where "n = unat (callback_count s)"
  define cbs where "cbs = callbacks s"
  have wf: "length cbs = CALLBACKS_SIZE" "n \<le> CALLBACKS_SIZE" "i \<le> n"
    using 1(2,3) by (simp_all add: callbacks_wf_def n_def cbs_def)
  have R: "registered s = take n cbs" by (simp add: registered_def n_def cbs_def)
  show ?case
  proof (cases "i < n")
    case False
    then have "drop i (registered s) = []" using wf by (simp add: R)
    then show ?thesis
      using False by (subst unregister_from.simps) (simp add: n_def)
  next
    case True
    then have dr: "drop i (take n cbs) = cbs ! i # drop (Suc i) (take n cbs)"
      using wf by (simp add: Cons_nth_drop_Suc [symmetric])
    show ?thesis
    proof (cases "callback (cbs ! i) = cb")
      case found: True
      define s' where "s' = s\<lparr>callbacks := shift_callbacks n i cbs,
                               callback_count := callback_count s - 1\<rparr>"
      have u: "unregister_from i cb s = (Inr (), s')"
        using True found
        by (subst unregister_from.simps) (simp add: n_def cbs_def s'_def)
      have nz: "callback_count s \<noteq> 0" using True by (auto simp: n_def)
      have c: "unat (callback_count s') = n - 1"
        using nz by (simp add: s'_def unat_minus_one n_def)
      have "registered s' = take (n - 1) (shift_callbacks n i cbs)"
        by (simp add: registered_def c) (simp add: s'_def)
      also have "\<dots> = take i (take n cbs) @ drop (Suc i) (take n cbs)"
        using registered_after_shift [OF True] wf by simp
      also have "\<dots> = take i (registered s) @ remove_handler cb (drop i (registered s))"
        using found by (simp add: R dr)
      finally have r: "registered s' = take i (registered s) @ remove_handler cb (drop i (registered s))" .
      have w: "callbacks_wf s'"
        using wf c by (simp add: callbacks_wf_def s'_def length_shift_callbacks cbs_def [symmetric])
      have "cb \<in> callback ` set (drop i (registered s))"
        using found by (simp add: R dr)
      then show ?thesis by (simp add: u r w)
    next
      case nf: False
      have u: "unregister_from i cb s = unregister_from (Suc i) cb s"
        using True nf by (subst unregister_from.simps) (simp add: n_def cbs_def)
      have m: "cb \<in> callback ` set (drop i (registered s))
                 \<longleftrightarrow> cb \<in> callback ` set (drop (Suc i) (registered s))"
        using nf by (auto simp: R dr)
      have t: "take i (registered s) @ remove_handler cb (drop i (registered s))
          = take (Suc i) (registered s) @ remove_handler cb (drop (Suc i) (registered s))"
        using nf True wf by (simp add: R dr take_Suc_conv_app_nth)
      have "Suc i \<le> unat (callback_count s)" using True by (simp add: n_def)
      from 1(1) [OF _ _ 1(2) this] True nf
      show ?thesis by (simp add: u m t n_def cbs_def)
    qed
  qed
qed

text \<open>
  Claim C8. The callback array has four slots (\<open>CALLBACKS_SIZE = 4\<close>) and the count is
  within them. Registering a null handler fails with \<^verbatim>\<open>-EINVAL\<close> and changes nothing.
  Registering a non-null handler fails with \<^verbatim>\<open>-ENOMEM\<close>, changing nothing, exactly when
  four callbacks are registered already; otherwise it succeeds and the pair of handler and
  context is appended behind the registered ones. Unregistering fails with \<^verbatim>\<open>-ENOENT\<close>,
  changing nothing, exactly when the handler is not among the registered ones; otherwise
  it succeeds and the first entry of that handler is removed, the others keeping their
  order.
\<close>

theorem callback_registry:
  assumes "callbacks_wf s"
  shows "CALLBACKS_SIZE = 4 \<and>
         (cb = 0 \<longrightarrow> zmk_keystroke_stats_register_callback cb ud s = (Inl EINVAL, s)) \<and>
         (cb \<noteq> 0 \<longrightarrow>
            (fst (zmk_keystroke_stats_register_callback cb ud s) = Inl ENOMEM
               \<longleftrightarrow> CALLBACKS_SIZE \<le> unat (callback_count s)) \<and>
            (CALLBACKS_SIZE \<le> unat (callback_count s) \<longrightarrow>
               snd (zmk_keystroke_stats_register_callback cb ud s) = s) \<and>
            (unat (callback_count s) < CALLBACKS_SIZE \<longrightarrow>
               fst (zmk_keystroke_stats_register_callback cb ud s) = Inr () \<and>
               registered (snd (zmk_keystroke_stats_register_callback cb ud s))
                 = registered s @ [\<lparr>callback = cb, user_data = ud\<rparr>] \<and>
               callbacks_wf (snd (zmk_keystroke_stats_register_callback cb ud s)))) \<and>
         (fst (zmk_keystroke_stats_unregister_callback h s) = Inl ENOENT
            \<longleftrightarrow> h \<notin> callback ` set (registered s)) \<and>
         (h \<notin> callback ` set (registered s) \<longrightarrow>
            snd (zmk_keystroke_stats_unregister_callback h s) = s) \<and>
         (h \<in> callback ` set (registered s) \<longrightarrow>
            fst (zmk_keystroke_stats_unregister_callback h s) = Inr () \<and>
            registered (snd (zmk_keystroke_stats_unregister_callback h s))
              = remove_handler h (registered s) \<and>
            callbacks_wf (snd (zmk_keystroke_stats_unregister_callback h s)))"
proof -
  have wf: "length (callbacks s) = CALLBACKS_SIZE" "unat (callback_count s) \<le> CALLBACKS_SIZE"
    using assms by (simp_all add: callbacks_wf_def)
  have reg_null: "cb = 0 \<longrightarrow> zmk_keystroke_stats_register_callback cb ud s = (Inl EINVAL, s)"
    by (simp add: zmk_keystroke_stats_register_callback_def)
  have reg_full: "cb \<noteq> 0 \<longrightarrow>
      (fst (zmk_keystroke_stats_register_callback cb ud s) = Inl ENOMEM
         \<longleftrightarrow> CALLBACKS_SIZE \<le> unat (callback_count s)) \<and>
      (CALLBACKS_SIZE \<le> unat (callback_count s) \<longrightarrow>
         snd (zmk_keystroke_stats_register_callback cb ud s) = s)"
    by (simp add: zmk_keystroke_stats_register_callback_def)
  have reg_ok: "fst (zmk_keystroke_stats_register_callback cb ud s) = Inr () \<and>
       registered (snd (zmk_keystroke_stats_register_callback cb ud s))
         = registered s @ [\<lparr>callback = cb, user_data = ud\<rparr>] \<and>
       callbacks_wf (snd (zmk_keystroke_stats_register_callback cb ud s))"
    if "cb \<noteq> 0" "unat (callback_count s) < CALLBACKS_SIZE"
  proof -
    have le: "CALLBACKS_SIZE \<le> 255" by (simp add: CALLBACKS_SIZE_def)
    note a = rollover_append [OF that(2) le wf(1)]
    show ?thesis
      using that a(1) [of "\<lparr>callback = cb, user_data = ud\<rparr>"] a(2) wf
      by (simp add: zmk_keystroke_stats_register_callback_def registered_def callbacks_wf_def)
  qed
  note un = unregister_from_spec [OF assms, of 0 h]
  have un_in: "h \<in> callback ` set (registered s) \<longrightarrow>
       fst (zmk_keystroke_stats_unregister_callback h s) = Inr () \<and>
       registered (snd (zmk_keystroke_stats_unregister_callback h s))
         = remove_handler h (registered s) \<and>
       callbacks_wf (snd (zmk_keystroke_stats_unregister_callback h s))"
    using un by (simp add: zmk_keystroke_stats_unregister_callback_def)
  have un_out: "h \<notin> callback ` set (registered s) \<longrightarrow>
       zmk_keystroke_stats_unregister_callback h s = (Inl ENOENT, s)"
    using un by (simp add: zmk_keystroke_stats_unregister_callback_def)
  have un_iff: "fst (zmk_keystroke_stats_unregister_callback h s) = Inl ENOENT
            \<longleftrightarrow> h \<notin> callback ` set (registered s)"
    using un_in un_out by (cases "h \<in> callback ` set (registered s)") simp_all
  show ?thesis
    using reg_null reg_full reg_ok un_in un_out un_iff
    by (simp add: CALLBACKS_SIZE_def)
qed

theorem callback_registry_witness:
  "callbacks_wf state_cb4 \<and> callbacks_wf (fresh cfg0 0) \<and>
   zmk_keystroke_stats_register_callback 5 50 state_cb4 = (Inl ENOMEM, state_cb4) \<and>
   zmk_keystroke_stats_register_callback 0 50 state_cb4 = (Inl EINVAL, state_cb4) \<and>
   registered (snd (zmk_keystroke_stats_register_callback 5 50 (fresh cfg0 0)))
     = [\<lparr>callback = 5, user_data = 50\<rparr>] \<and>
   zmk_keystroke_stats_unregister_callback 9 state_cb4 = (Inl ENOENT, state_cb4) \<and>
   registered (snd (zmk_keystroke_stats_unregister_callback 2 state_cb4))
     = [\<lparr>callback = 1, user_data = 10\<rparr>, \<lparr>callback = 3, user_data = 30\<rparr>,
        \<lparr>callback = 4, user_data = 40\<rparr>]"
proof -
  have f: "length (callbacks (fresh cfg0 0)) = 4" "callback_count (fresh cfg0 0) = 0"
    by (simp_all add: fresh_def keystroke_stats_init_def keystroke_stats_load_from_settings_def
        zero_state_def Let_def CALLBACKS_SIZE_def)
  have w4: "callbacks_wf state_cb4"
    by (simp add: callbacks_wf_def state_cb4_def CALLBACKS_SIZE_def)
  have w0: "callbacks_wf (fresh cfg0 0)"
    by (simp add: callbacks_wf_def f CALLBACKS_SIZE_def)
  have r4: "registered state_cb4
      = [\<lparr>callback = 1, user_data = 10\<rparr>, \<lparr>callback = 2, user_data = 20\<rparr>,
         \<lparr>callback = 3, user_data = 30\<rparr>, \<lparr>callback = 4, user_data = 40\<rparr>]"
    "unat (callback_count state_cb4) = 4"
    by (simp_all add: registered_def state_cb4_def)
  have r0: "registered (fresh cfg0 0) = []" "unat (callback_count (fresh cfg0 0)) = 0"
    by (simp_all add: registered_def f)
  have full: "zmk_keystroke_stats_register_callback 5 50 state_cb4 = (Inl ENOMEM, state_cb4)"
    using callback_registry [OF w4, of 5 50 9] r4
    by (simp add: prod_eq_iff)
  have null: "zmk_keystroke_stats_register_callback 0 50 state_cb4 = (Inl EINVAL, state_cb4)"
    using callback_registry [OF w4, of 0 50 9] by simp
  have app: "registered (snd (zmk_keystroke_stats_register_callback 5 50 (fresh cfg0 0)))
     = [\<lparr>callback = 5, user_data = 50\<rparr>]"
    using callback_registry [OF w0, of 5 50 9] r0 by simp
  have nf: "zmk_keystroke_stats_unregister_callback 9 state_cb4 = (Inl ENOENT, state_cb4)"
    using callback_registry [OF w4, of 5 50 9] r4 by (simp add: prod_eq_iff)
  have rm: "registered (snd (zmk_keystroke_stats_unregister_callback 2 state_cb4))
     = [\<lparr>callback = 1, user_data = 10\<rparr>, \<lparr>callback = 3, user_data = 30\<rparr>,
        \<lparr>callback = 4, user_data = 40\<rparr>]"
    using callback_registry [OF w4, of 5 50 2] r4 by simp
  show ?thesis using w4 w0 full null app nf rm by simp
qed

section \<open>The heatmap ranking\<close>

text \<open>One pass of the inner loop rearranges the scratch array from slot \<open>i\<close> on.\<close>

lemma length_top_keys_inner: "length (top_keys_inner n i j tk) = length tk"
  by (induction n i j tk rule: top_keys_inner.induct)
    (subst top_keys_inner.simps, simp)

lemma set_top_keys_inner:
  "i < n \<Longrightarrow> n \<le> length tk \<Longrightarrow> set (top_keys_inner n i j tk) = set tk"
proof (induction n i j tk rule: top_keys_inner.induct)
  case (1 n i j tk)
  show ?case
  proof (cases "j < n")
    case True
    let ?tk = "if count (tk ! i) < count (tk ! j) then tk[i := tk ! j, j := tk ! i] else tk"
    have s: "set ?tk = set tk" using True 1(2,3) by simp
    have l: "n \<le> length ?tk" using 1(3) by simp
    have "top_keys_inner n i j tk = top_keys_inner n i (Suc j) ?tk"
      using True by (subst top_keys_inner.simps) simp
    then show ?thesis using 1(1) [OF True 1(2) l] s by simp
  next
    case False
    then show ?thesis by (subst top_keys_inner.simps) simp
  qed
qed

lemma distinct_top_keys_inner:
  "i < n \<Longrightarrow> n \<le> length tk \<Longrightarrow>
   distinct (map position (top_keys_inner n i j tk)) = distinct (map position tk)"
proof (induction n i j tk rule: top_keys_inner.induct)
  case (1 n i j tk)
  show ?case
  proof (cases "j < n")
    case True
    let ?tk = "if count (tk ! i) < count (tk ! j) then tk[i := tk ! j, j := tk ! i] else tk"
    have e1: "map position (tk[i := tk ! j, j := tk ! i])
            = (map position tk)[i := map position tk ! j, j := map position tk ! i]"
      using True 1(2,3) by (simp add: map_update)
    have e2: "distinct ((map position tk)[i := map position tk ! j, j := map position tk ! i])
            = distinct (map position tk)"
      by (rule distinct_swap) (use True 1(2,3) in simp_all)
    have s: "distinct (map position ?tk) = distinct (map position tk)"
    proof (cases "count (tk ! i) < count (tk ! j)")
      case True
      then show ?thesis by (simp only: e1 e2 if_True)
    next
      case False
      then show ?thesis by (simp only: if_False)
    qed
    have l: "n \<le> length ?tk" using 1(3) by simp
    have "top_keys_inner n i j tk = top_keys_inner n i (Suc j) ?tk"
      using True by (subst top_keys_inner.simps) simp
    then show ?thesis using 1(1) [OF True 1(2) l] s by simp
  next
    case False
    then show ?thesis by (subst top_keys_inner.simps) simp
  qed
qed

lemma take_top_keys_inner:
  "i < j \<Longrightarrow> take i (top_keys_inner n i j tk) = take i tk"
proof (induction n i j tk rule: top_keys_inner.induct)
  case (1 n i j tk)
  show ?case
  proof (cases "j < n")
    case True
    let ?tk = "if count (tk ! i) < count (tk ! j) then tk[i := tk ! j, j := tk ! i] else tk"
    have s: "take i ?tk = take i tk" using 1(2) by simp
    have "top_keys_inner n i j tk = top_keys_inner n i (Suc j) ?tk"
      using True by (subst top_keys_inner.simps) simp
    then show ?thesis using 1(1) [OF True] 1(2) s by simp
  next
    case False
    then show ?thesis by (subst top_keys_inner.simps) simp
  qed
qed

lemma set_drop_swap:
  assumes "i \<le> j" "j < length xs"
  shows "set (drop i (xs[i := xs ! j, j := xs ! i])) = set (drop i xs)"
proof -
  let ?d = "drop i xs"
  have "drop i (xs[i := xs ! j, j := xs ! i]) = ?d[0 := ?d ! (j - i), j - i := ?d ! 0]"
    using assms by (simp add: drop_update_swap)
  moreover have "0 < length ?d" "j - i < length ?d" using assms by simp_all
  ultimately show ?thesis by (simp only: set_swap)
qed

lemma set_drop_top_keys_inner:
  "i < j \<Longrightarrow> n \<le> length tk \<Longrightarrow>
   set (drop i (top_keys_inner n i j tk)) = set (drop i tk)"
proof (induction n i j tk rule: top_keys_inner.induct)
  case (1 n i j tk)
  show ?case
  proof (cases "j < n")
    case True
    let ?tk = "if count (tk ! i) < count (tk ! j) then tk[i := tk ! j, j := tk ! i] else tk"
    have s: "set (drop i ?tk) = set (drop i tk)"
      using set_drop_swap [of i j tk] True 1(2,3) by simp
    have l: "n \<le> length ?tk" using 1(3) by simp
    have "top_keys_inner n i j tk = top_keys_inner n i (Suc j) ?tk"
      using True by (subst top_keys_inner.simps) simp
    then show ?thesis using 1(1) [OF True _ l] 1(2) s by simp
  next
    case False
    then show ?thesis by (subst top_keys_inner.simps) simp
  qed
qed

text \<open>After the pass, slot \<open>i\<close> holds a count that no later slot exceeds.\<close>

lemma top_keys_inner_max:
  "i < j \<Longrightarrow> n \<le> length tk \<Longrightarrow>
   (\<forall>m. i < m \<and> m < j \<longrightarrow> count (tk ! m) \<le> count (tk ! i)) \<Longrightarrow>
   (\<forall>m. i < m \<and> m < n \<longrightarrow>
      count (top_keys_inner n i j tk ! m) \<le> count (top_keys_inner n i j tk ! i))"
proof (induction n i j tk rule: top_keys_inner.induct)
  case (1 n i j tk)
  show ?case
  proof (cases "j < n")
    case True
    let ?tk = "if count (tk ! i) < count (tk ! j) then tk[i := tk ! j, j := tk ! i] else tk"
    have l: "n \<le> length ?tk" using 1(3) by simp
    have inv: "\<forall>m. i < m \<and> m < Suc j \<longrightarrow> count (?tk ! m) \<le> count (?tk ! i)"
    proof (intro allI impI)
      fix m assume m: "i < m \<and> m < Suc j"
      show "count (?tk ! m) \<le> count (?tk ! i)"
      proof (cases "count (tk ! i) < count (tk ! j)")
        case sw: True
        have i': "?tk ! i = tk ! j" using sw True 1(2,3) by simp
        show ?thesis
        proof (cases "m = j")
          case True
          then show ?thesis using sw i' \<open>j < n\<close> 1(2,3) by simp
        next
          case False
          then have "m < j" using m by simp
          then have "?tk ! m = tk ! m" using sw m by simp
          moreover have "count (tk ! m) \<le> count (tk ! i)" using 1(4) m \<open>m < j\<close> by simp
          ultimately show ?thesis using sw i' by simp
        qed
      next
        case ns: False
        show ?thesis
        proof (cases "m = j")
          case True
          then show ?thesis using ns by simp
        next
          case False
          then have "m < j" using m by simp
          then show ?thesis using ns 1(4) m by simp
        qed
      qed
    qed
    have "top_keys_inner n i j tk = top_keys_inner n i (Suc j) ?tk"
      using True by (subst top_keys_inner.simps) simp
    then show ?thesis using 1(1) [OF True _ l inv] 1(2) by simp
  next
    case False
    then show ?thesis using 1(4) by (subst (1 2) top_keys_inner.simps) simp
  qed
qed

text \<open>
  The outer loop: its result is the first \<open>k\<close> slots of a rearrangement of the scratch
  array in which each of these slots holds a count that no later slot exceeds.
\<close>

lemma top_keys_outer_spec:
  assumes "i \<le> k" "k \<le> n" "length tk = n" "length out = k"
    "\<forall>a<i. out ! a = tk ! a"
    "\<forall>a<i. \<forall>m. a < m \<and> m < n \<longrightarrow> count (tk ! m) \<le> count (tk ! a)"
  shows "\<exists>tk'. length tk' = n \<and> set tk' = set tk \<and>
           distinct (map position tk') = distinct (map position tk) \<and>
           top_keys_outer n k i tk out = take k tk' \<and>
           (\<forall>a<k. \<forall>m. a < m \<and> m < n \<longrightarrow> count (tk' ! m) \<le> count (tk' ! a))"
  using assms
proof (induction n k i tk out rule: top_keys_outer.induct)
  case (1 n k i tk out)
  show ?case
  proof (cases "i < k")
    case False
    then have ik: "i = k" using 1(2) by simp
    have "out = take k tk"
      using 1(3,4,5,6) ik by (intro nth_equalityI) simp_all
    then have "top_keys_outer n k i tk out = take k tk"
      using False by (subst top_keys_outer.simps) simp
    then show ?thesis using 1(4,7) ik by (intro exI [of _ tk]) simp
  next
    case True
    define tk1 where "tk1 = top_keys_inner n i (Suc i) tk"
    define out1 where "out1 = out[i := tk1 ! i]"
    have i_n: "i < n" using True 1(3) by simp
    have len: "length tk1 = n" by (simp add: tk1_def length_top_keys_inner 1(4))
    have st: "set tk1 = set tk"
      using i_n 1(4) by (simp add: tk1_def set_top_keys_inner)
    have di: "distinct (map position tk1) = distinct (map position tk)"
      using i_n 1(4) by (simp add: tk1_def distinct_top_keys_inner)
    have pre: "take i tk1 = take i tk" by (simp add: tk1_def take_top_keys_inner)
    have pre_nth: "tk1 ! a = tk ! a" if "a < i" for a
      using that pre by (metis nth_take)
    have sd: "set (drop i tk1) = set (drop i tk)"
      using 1(4) by (simp add: tk1_def set_drop_top_keys_inner)
    have mx: "\<forall>m. i < m \<and> m < n \<longrightarrow> count (tk1 ! m) \<le> count (tk1 ! i)"
      unfolding tk1_def using 1(4) by (intro top_keys_inner_max) auto
    have inv1: "\<forall>a<Suc i. out1 ! a = tk1 ! a"
    proof (intro allI impI)
      fix a assume a: "a < Suc i"
      show "out1 ! a = tk1 ! a"
      proof (cases "a = i")
        case True
        then show ?thesis using \<open>i < k\<close> 1(5) by (simp add: out1_def)
      next
        case False
        then have "a < i" using a by simp
        then show ?thesis using 1(6) pre_nth by (simp add: out1_def)
      qed
    qed
    have inv2: "\<forall>a<Suc i. \<forall>m. a < m \<and> m < n \<longrightarrow> count (tk1 ! m) \<le> count (tk1 ! a)"
    proof (intro allI impI)
      fix a m assume a: "a < Suc i" and m: "a < m \<and> m < n"
      show "count (tk1 ! m) \<le> count (tk1 ! a)"
      proof (cases "a = i")
        case True
        then show ?thesis using mx m by simp
      next
        case False
        then have ai: "a < i" using a by simp
        show ?thesis
        proof (cases "m < i")
          case True
          then show ?thesis using 1(7) ai m by (simp add: pre_nth)
        next
          case False
          then have "tk1 ! m \<in> set (drop i tk1)"
            using m len by (auto simp: in_set_conv_nth intro!: exI [of _ "m - i"])
          then have "tk1 ! m \<in> set (drop i tk)" by (simp add: sd)
          then obtain m' where m': "m' < length (drop i tk)" "drop i tk ! m' = tk1 ! m"
            by (auto simp: in_set_conv_nth)
          then have "tk ! (i + m') = tk1 ! m" "i + m' < n" "a < i + m'"
            using 1(4) ai by auto
          then show ?thesis using 1(7) ai by (metis pre_nth)
        qed
      qed
    qed
    have "\<exists>tk'. length tk' = n \<and> set tk' = set tk1 \<and>
           distinct (map position tk') = distinct (map position tk1) \<and>
           top_keys_outer n k (Suc i) tk1 out1 = take k tk' \<and>
           (\<forall>a<k. \<forall>m. a < m \<and> m < n \<longrightarrow> count (tk' ! m) \<le> count (tk' ! a))"
      unfolding out1_def
    proof (rule 1(1) [OF True tk1_def])
      show "Suc i \<le> k" using True by simp
      show "k \<le> n" by (rule 1(3))
      show "length tk1 = n" by (rule len)
      show "length (out[i := tk1 ! i]) = k" using 1(5) by simp
      show "\<forall>a<Suc i. out[i := tk1 ! i] ! a = tk1 ! a"
        using inv1 by (simp add: out1_def)
      show "\<forall>a<Suc i. \<forall>m. a < m \<and> m < n \<longrightarrow> count (tk1 ! m) \<le> count (tk1 ! a)"
        by (rule inv2)
    qed
    moreover have "top_keys_outer n k i tk out = top_keys_outer n k (Suc i) tk1 out1"
      using True by (subst top_keys_outer.simps) (simp add: Let_def tk1_def out1_def)
    ultimately show ?thesis by (simp add: st di)
  qed
qed

lemma copy_all_keys_facts:
  assumes "n \<le> 2 ^ 32"
  shows "length (copy_all_keys n kc) = n"
    and "e \<in> set (copy_all_keys n kc) \<longleftrightarrow> (\<exists>p<n. e = \<lparr>position = of_nat p, count = kc ! p\<rparr>)"
    and "distinct (map position (copy_all_keys n kc))"
proof -
  show "length (copy_all_keys n kc) = n" by (simp add: copy_all_keys_def)
  show "e \<in> set (copy_all_keys n kc) \<longleftrightarrow> (\<exists>p<n. e = \<lparr>position = of_nat p, count = kc ! p\<rparr>)"
    by (auto simp: copy_all_keys_def)
  have inj: "inj_on (of_nat :: nat \<Rightarrow> u32) {0..<n}"
  proof (rule inj_onI)
    fix x y assume "x \<in> {0..<n}" "y \<in> {0..<n}" and eq: "(of_nat x :: u32) = of_nat y"
    then have "x < 2 ^ 32" "y < 2 ^ 32" using assms by auto
    moreover have "unat (of_nat x :: u32) = unat (of_nat y :: u32)" using eq by simp
    ultimately show "x = y" by (simp add: unat_of_nat)
  qed
  have "map position (copy_all_keys n kc) = map of_nat [0..<n]"
    by (simp add: copy_all_keys_def)
  then show "distinct (map position (copy_all_keys n kc))"
    using inj by (simp add: distinct_map)
qed

text \<open>
  Claim C6, as the code has it. With at most \<open>2^32\<close> positions, of which the snapshot
  ranks \<open>k\<close>, the \<^verbatim>\<open>top_keys\<close> of a snapshot are \<open>k\<close> pairs of a position and that
  position's counter, the positions distinct, in descending (non-increasing) order of
  count, and no position left out has a higher count than a position in the ranking: these
  are \<open>k\<close> highest counts. Nothing orders equal counts by position.
\<close>

theorem top_keys_ranking:
  assumes "TOP_KEYS_COUNT cfg \<le> MAX_KEY_POSITIONS cfg" "MAX_KEY_POSITIONS cfg \<le> 2 ^ 32"
    "length (key_counts s) = MAX_KEY_POSITIONS cfg"
  shows "let r = st_top_keys (stats_snapshot cfg s); kc = key_counts s;
             n = MAX_KEY_POSITIONS cfg; k = TOP_KEYS_COUNT cfg
         in length r = k \<and>
            (\<forall>e \<in> set r. unat (position e) < n \<and> count e = kc ! unat (position e)) \<and>
            distinct (map position r) \<and>
            (\<forall>a b. a \<le> b \<and> b < k \<longrightarrow> count (r ! b) \<le> count (r ! a)) \<and>
            (\<forall>p<n. (of_nat p :: u32) \<notin> position ` set r \<longrightarrow>
               (\<forall>e \<in> set r. kc ! p \<le> count e))"
proof -
  define n where "n = MAX_KEY_POSITIONS cfg"
  define k where "k = TOP_KEYS_COUNT cfg"
  define kc where "kc = key_counts s"
  define r where "r = st_top_keys (stats_snapshot cfg s)"
  define arr where "arr = copy_all_keys n kc"
  have kn: "k \<le> n" "n \<le> 2 ^ 32" using assms by (simp_all add: n_def k_def)
  note cf = copy_all_keys_facts [OF kn(2), where kc = kc, folded arr_def]
  have r0: "r = top_keys_outer n k 0 arr (replicate k zero_key_entry)"
    by (simp add: r_def stats_snapshot_def top_keys_of_def n_def k_def kc_def arr_def)
  obtain tk where tk: "length tk = n" "set tk = set arr"
      "distinct (map position tk) = distinct (map position arr)"
      "r = take k tk"
      "\<forall>a<k. \<forall>m. a < m \<and> m < n \<longrightarrow> count (tk ! m) \<le> count (tk ! a)"
    using top_keys_outer_spec [of 0 k n arr "replicate k zero_key_entry"] kn(1) cf(1)
    unfolding r0 by auto
  have len: "length r = k" using tk(1,4) kn(1) by simp
  have nth: "r ! a = tk ! a" if "a < k" for a using that tk(4) by simp
  have el: "\<forall>e \<in> set r. unat (position e) < n \<and> count e = kc ! unat (position e)"
  proof
    fix e assume "e \<in> set r"
    then have "e \<in> set arr" using tk(2,4) by (auto dest: in_set_takeD)
    then obtain p where p: "p < n" "e = \<lparr>position = of_nat p, count = kc ! p\<rparr>"
      using cf(2) by auto
    then have "unat (position e) = p" using kn(2) by (simp add: unat_of_nat)
    then show "unat (position e) < n \<and> count e = kc ! unat (position e)"
      using p by simp
  qed
  have dis: "distinct (map position r)"
    using tk(3,4) cf(3) by (simp add: take_map [symmetric] distinct_take)
  have srt: "\<forall>a b. a \<le> b \<and> b < k \<longrightarrow> count (r ! b) \<le> count (r ! a)"
  proof (intro allI impI)
    fix a b assume ab: "a \<le> b \<and> b < k"
    show "count (r ! b) \<le> count (r ! a)"
    proof (cases "a = b")
      case True
      then show ?thesis by simp
    next
      case False
      then have "a < b" "a < k" "b < n" using ab kn(1) by simp_all
      then show ?thesis using tk(5) ab by (simp add: nth)
    qed
  qed
  have out: "\<forall>p<n. (of_nat p :: u32) \<notin> position ` set r \<longrightarrow> (\<forall>e \<in> set r. kc ! p \<le> count e)"
  proof (intro allI impI ballI)
    fix p e assume p: "p < n" and np: "(of_nat p :: u32) \<notin> position ` set r" and e: "e \<in> set r"
    have "\<lparr>position = of_nat p, count = kc ! p\<rparr> \<in> set tk"
      using p cf(2) tk(2) by auto
    then obtain m where m: "m < n" "tk ! m = \<lparr>position = of_nat p, count = kc ! p\<rparr>"
      using tk(1) by (auto simp: in_set_conv_nth)
    have "\<not> m < k"
    proof
      assume "m < k"
      then have "r ! m \<in> set r" using len by simp
      then have "position (tk ! m) \<in> position ` set r" using \<open>m < k\<close> by (simp add: nth)
      then show False using np m(2) by simp
    qed
    obtain a where a: "a < k" "e = r ! a" using e len by (auto simp: in_set_conv_nth)
    then have "a < m" using \<open>\<not> m < k\<close> by simp
    then have "count (tk ! m) \<le> count (tk ! a)" using tk(5) a(1) m(1) by simp
    then show "kc ! p \<le> count e" using m(2) a by (simp add: nth)
  qed
  show ?thesis
    unfolding Let_def r_def [symmetric] kc_def [symmetric] n_def [symmetric] k_def [symmetric]
    using len el dis srt out by simp
qed

lemma replicate_2: "replicate 2 x = [x, x]"
  by (simp add: numeral_2_eq_2)

lemma copy_all_keys_559:
  "copy_all_keys 3 [5, 5, 9]
     = [\<lparr>position = 0, count = 5\<rparr>, \<lparr>position = 1, count = 5\<rparr>, \<lparr>position = 2, count = 9\<rparr>]"
  by (simp add: copy_all_keys_def upt_rec)

lemma copy_all_keys_5991:
  "copy_all_keys 4 [5, 9, 9, 1]
     = [\<lparr>position = 0, count = 5\<rparr>, \<lparr>position = 1, count = 9\<rparr>,
        \<lparr>position = 2, count = 9\<rparr>, \<lparr>position = 3, count = 1\<rparr>]"
  by (simp add: copy_all_keys_def upt_rec)

lemma top_keys_of_5991:
  "top_keys_of cfg0 [5, 9, 9, 1] = [\<lparr>position = 1, count = 9\<rparr>, \<lparr>position = 2, count = 9\<rparr>]"
  by (simp add: top_keys_of_def cfg0_def copy_all_keys_5991 zero_key_entry_def replicate_2
      top_keys_outer.simps top_keys_inner.simps)

lemma top_keys_of_559:
  "top_keys_of cfg3 [5, 5, 9] = [\<lparr>position = 2, count = 9\<rparr>, \<lparr>position = 1, count = 5\<rparr>]"
  by (simp add: top_keys_of_def cfg3_def cfg0_def copy_all_keys_559 zero_key_entry_def
      replicate_2 top_keys_outer.simps top_keys_inner.simps)

theorem top_keys_ranking_witness:
  "TOP_KEYS_COUNT cfg0 \<le> MAX_KEY_POSITIONS cfg0 \<and> MAX_KEY_POSITIONS cfg0 \<le> 2 ^ 32 \<and>
   length (key_counts state_5991) = MAX_KEY_POSITIONS cfg0 \<and>
   st_top_keys (stats_snapshot cfg0 state_5991)
     = [\<lparr>position = 1, count = 9\<rparr>, \<lparr>position = 2, count = 9\<rparr>] \<and>
   length (st_top_keys (stats_snapshot cfg0 state_5991)) = TOP_KEYS_COUNT cfg0 \<and>
   distinct (map position (st_top_keys (stats_snapshot cfg0 state_5991)))"
proof -
  have h1: "TOP_KEYS_COUNT cfg0 \<le> MAX_KEY_POSITIONS cfg0" by (simp add: cfg0_def)
  have h2: "MAX_KEY_POSITIONS cfg0 \<le> 2 ^ 32" by (simp add: cfg0_def)
  have h3: "length (key_counts state_5991) = MAX_KEY_POSITIONS cfg0"
    by (simp add: state_5991_def cfg0_def)
  have ev: "st_top_keys (stats_snapshot cfg0 state_5991)
              = [\<lparr>position = 1, count = 9\<rparr>, \<lparr>position = 2, count = 9\<rparr>]"
    by (simp add: stats_snapshot_def state_5991_def top_keys_of_5991)
  from top_keys_ranking [OF h1 h2 h3]
  have "length (st_top_keys (stats_snapshot cfg0 state_5991)) = TOP_KEYS_COUNT cfg0 \<and>
        distinct (map position (st_top_keys (stats_snapshot cfg0 state_5991)))"
    by (simp add: Let_def)
  then show ?thesis using h1 h2 h3 ev by simp
qed

text \<open>
  The specification's tie rule fails on the code. With counts 5, 5, 9 at positions 0, 1, 2
  and two ranked keys the snapshot lists position 2 and then position 1: the swap that
  brings count 9 to the front moves position 0 behind position 1. By ascending position
  the second place would be position 0. The specification's own example (counts 5, 9, 9,
  1) does come out with the lower position first.
\<close>

theorem top_keys_tie_counterexample:
  "fst (zmk_keystroke_stats_get cfg3 (Some zero_stats) state_559)
     = Inr (stats_snapshot cfg3 state_559) \<and>
   st_top_keys (stats_snapshot cfg3 state_559)
     = [\<lparr>position = 2, count = 9\<rparr>, \<lparr>position = 1, count = 5\<rparr>] \<and>
   top_k_spec (TOP_KEYS_COUNT cfg3) (MAX_KEY_POSITIONS cfg3) (key_counts state_559)
     = [\<lparr>position = 2, count = 9\<rparr>, \<lparr>position = 0, count = 5\<rparr>] \<and>
   st_top_keys (stats_snapshot cfg3 state_559)
     \<noteq> top_k_spec (TOP_KEYS_COUNT cfg3) (MAX_KEY_POSITIONS cfg3) (key_counts state_559)"
proof -
  have g: "fst (zmk_keystroke_stats_get cfg3 (Some zero_stats) state_559)
             = Inr (stats_snapshot cfg3 state_559)"
    by (simp add: zmk_keystroke_stats_get_def)
  have c: "st_top_keys (stats_snapshot cfg3 state_559)
     = [\<lparr>position = 2, count = 9\<rparr>, \<lparr>position = 1, count = 5\<rparr>]"
    by (simp add: stats_snapshot_def state_559_def top_keys_of_559)
  have s: "top_k_spec (TOP_KEYS_COUNT cfg3) (MAX_KEY_POSITIONS cfg3) (key_counts state_559)
     = [\<lparr>position = 2, count = 9\<rparr>, \<lparr>position = 0, count = 5\<rparr>]"
    by (simp add: top_k_spec_def state_559_def cfg3_def cfg0_def copy_all_keys_559)
  show ?thesis using g c s by simp
qed

section \<open>Typing speed across the wrap of the millisecond count\<close>

text \<open>Notification, save scheduling and the rollover check leave speed and session alone.\<close>

lemma notify_callbacks_speed:
  "current_wpm (notify_callbacks cfg s) = current_wpm s"
  "average_wpm (notify_callbacks cfg s) = average_wpm s"
  "peak_wpm (notify_callbacks cfg s) = peak_wpm s"
  "wpm_window_timestamps (notify_callbacks cfg s) = wpm_window_timestamps s"
  "wpm_window_keystrokes (notify_callbacks cfg s) = wpm_window_keystrokes s"
  "wpm_window_head (notify_callbacks cfg s) = wpm_window_head s"
  "wpm_window_count (notify_callbacks cfg s) = wpm_window_count s"
  "session_keystrokes (notify_callbacks cfg s) = session_keystrokes s"
  "session_start_time (notify_callbacks cfg s) = session_start_time s"
  "last_keystroke_time (notify_callbacks cfg s) = last_keystroke_time s"
  using notify_callbacks_frame [of cfg s] by auto

lemma schedule_save_speed:
  "current_wpm (schedule_save cfg s) = current_wpm s"
  "average_wpm (schedule_save cfg s) = average_wpm s"
  "peak_wpm (schedule_save cfg s) = peak_wpm s"
  "wpm_window_timestamps (schedule_save cfg s) = wpm_window_timestamps s"
  "wpm_window_keystrokes (schedule_save cfg s) = wpm_window_keystrokes s"
  "wpm_window_head (schedule_save cfg s) = wpm_window_head s"
  "wpm_window_count (schedule_save cfg s) = wpm_window_count s"
  "session_keystrokes (schedule_save cfg s) = session_keystrokes s"
  "session_start_time (schedule_save cfg s) = session_start_time s"
  "last_keystroke_time (schedule_save cfg s) = last_keystroke_time s"
  by (simp_all add: schedule_save_def)

lemma check_day_rollover_speed:
  "current_wpm (check_day_rollover cfg t s) = current_wpm s"
  "average_wpm (check_day_rollover cfg t s) = average_wpm s"
  "peak_wpm (check_day_rollover cfg t s) = peak_wpm s"
  "wpm_window_timestamps (check_day_rollover cfg t s) = wpm_window_timestamps s"
  "wpm_window_keystrokes (check_day_rollover cfg t s) = wpm_window_keystrokes s"
  "wpm_window_head (check_day_rollover cfg t s) = wpm_window_head s"
  "wpm_window_count (check_day_rollover cfg t s) = wpm_window_count s"
  "session_keystrokes (check_day_rollover cfg t s) = session_keystrokes s"
  "session_start_time (check_day_rollover cfg t s) = session_start_time s"
  "last_keystroke_time (check_day_rollover cfg t s) = last_keystroke_time s"
  by (simp_all add: check_day_rollover_def Let_def notify_callbacks_speed schedule_save_speed)

lemma listener_press_speed:
  assumes "state ev"
  shows
  "current_wpm (snd (keystroke_event_listener cfg (Keycode_state_changed ev) up s)) = current_wpm (before_rollover cfg ev up s)"
  "average_wpm (snd (keystroke_event_listener cfg (Keycode_state_changed ev) up s)) = average_wpm (before_rollover cfg ev up s)"
  "peak_wpm (snd (keystroke_event_listener cfg (Keycode_state_changed ev) up s)) = peak_wpm (before_rollover cfg ev up s)"
  "wpm_window_timestamps (snd (keystroke_event_listener cfg (Keycode_state_changed ev) up s)) = wpm_window_timestamps (before_rollover cfg ev up s)"
  "wpm_window_keystrokes (snd (keystroke_event_listener cfg (Keycode_state_changed ev) up s)) = wpm_window_keystrokes (before_rollover cfg ev up s)"
  "wpm_window_head (snd (keystroke_event_listener cfg (Keycode_state_changed ev) up s)) = wpm_window_head (before_rollover cfg ev up s)"
  "wpm_window_count (snd (keystroke_event_listener cfg (Keycode_state_changed ev) up s)) = wpm_window_count (before_rollover cfg ev up s)"
  "session_keystrokes (snd (keystroke_event_listener cfg (Keycode_state_changed ev) up s)) = session_keystrokes (before_rollover cfg ev up s)"
  "session_start_time (snd (keystroke_event_listener cfg (Keycode_state_changed ev) up s)) = session_start_time (before_rollover cfg ev up s)"
  "last_keystroke_time (snd (keystroke_event_listener cfg (Keycode_state_changed ev) up s)) = last_keystroke_time (before_rollover cfg ev up s)"
  by (simp_all add: listener_press_shape [OF assms] notify_callbacks_speed
      check_day_rollover_speed)

lemma update_wpm_stages:
  "update_wpm cfg t s = wpm_average t (wpm_current cfg t (wpm_insert t s))"
proof -
  obtain a b where r:
    "wpm_scan (unat (wpm_window_count (wpm_insert t s))) 0 (ucast t)
       (of_nat (WPM_WINDOW_MS cfg)) (wpm_window_timestamps (wpm_insert t s))
       (wpm_window_keystrokes (wpm_insert t s)) 0 (ucast t) = (a, b)"
    by (cases "wpm_scan (unat (wpm_window_count (wpm_insert t s))) 0 (ucast t)
       (of_nat (WPM_WINDOW_MS cfg) :: u32) (wpm_window_timestamps (wpm_insert t s))
       (wpm_window_keystrokes (wpm_insert t s)) 0 (ucast t)") auto
  have "update_wpm cfg t s
          = (let now = (ucast t :: u32); s1 = wpm_insert t s;
                 (sum_ks, oldest_time) =
                    wpm_scan (unat (wpm_window_count s1)) 0 now (of_nat (WPM_WINDOW_MS cfg))
                      (wpm_window_timestamps s1) (wpm_window_keystrokes s1) 0 now;
                 elapsed_ms = now - oldest_time;
                 s2 = (if 0 < elapsed_ms \<and> 0 < sum_ks
                       then (let wpm = (sum_ks * 60000) div (elapsed_ms * 5);
                                 s' = s1\<lparr>current_wpm := ucast (min wpm 255)\<rparr>
                             in if peak_wpm s' < current_wpm s'
                                then s'\<lparr>peak_wpm := current_wpm s'\<rparr> else s')
                       else s1\<lparr>current_wpm := 0\<rparr>)
             in wpm_average t s2)"
    unfolding update_wpm_def wpm_average_def wpm_insert_def Let_def by (rule refl)
  also have "\<dots> = wpm_average t (wpm_current cfg t (wpm_insert t s))"
    unfolding wpm_current_def Let_def r by simp
  finally show ?thesis .
qed

lemma before_rollover_stages:
  "before_rollover cfg ev up s = update_wpm cfg (up_wpm up) (before_update_wpm cfg ev up s)"
  unfolding before_rollover_def before_update_wpm_def Let_def
  by (rule refl)

lemma replicate_10: "replicate 10 x = [x, x, x, x, x, x, x, x, x, x]"
  by (simp add: numeral_eq_Suc)

lemma fresh_speed:
  "wpm_window_timestamps (fresh cfg0 0) = [0, 0, 0, 0, 0, 0, 0, 0, 0, 0]"
  "wpm_window_keystrokes (fresh cfg0 0) = [0, 0, 0, 0, 0, 0, 0, 0, 0, 0]"
  "wpm_window_head (fresh cfg0 0) = 0" "wpm_window_count (fresh cfg0 0) = 0"
  "session_keystrokes (fresh cfg0 0) = 0" "session_start_time (fresh cfg0 0) = 0"
  "last_keystroke_time (fresh cfg0 0) = 0" "peak_wpm (fresh cfg0 0) = 0"
  "current_wpm (fresh cfg0 0) = 0" "average_wpm (fresh cfg0 0) = 0"
  by (simp_all add: fresh_def keystroke_stats_init_def keystroke_stats_load_from_settings_def
      zero_state_def Let_def replicate_10)

lemma cfg0_speed:
  "WPM_WINDOW_MS cfg0 = 5000" "SESSION_TIMEOUT_MS cfg0 = 30000" "MAX_KEY_POSITIONS cfg0 = 4"
  by (simp_all add: cfg0_def)

text \<open>
  The speed and session fields after one pressed key, from those before: the listener's
  steps one after the other.
\<close>

lemma before_update_wpm_speed:
  assumes c: "c = check_session_timeout cfg (up_session_timeout up)
                  (s\<lparr>total_keystrokes := total_keystrokes s + 1,
                     today_keystrokes := today_keystrokes s + 1\<rparr>)"
  shows "wpm_window_timestamps (before_update_wpm cfg ev up s) = wpm_window_timestamps c"
    "wpm_window_keystrokes (before_update_wpm cfg ev up s) = wpm_window_keystrokes c"
    "wpm_window_head (before_update_wpm cfg ev up s) = wpm_window_head c"
    "wpm_window_count (before_update_wpm cfg ev up s) = wpm_window_count c"
    "peak_wpm (before_update_wpm cfg ev up s) = peak_wpm c"
    "average_wpm (before_update_wpm cfg ev up s) = average_wpm c"
    "session_keystrokes (before_update_wpm cfg ev up s) = session_keystrokes c + 1"
    "session_start_time (before_update_wpm cfg ev up s)
       = (if session_keystrokes c = 0 then ucast (up_session_start up)
          else session_start_time c)"
    "last_keystroke_time (before_update_wpm cfg ev up s) = ucast (up_last_keystroke up)"
  unfolding c by (simp_all add: before_update_wpm_def Let_def)

lemma check_session_timeout_speed:
  assumes idle: "idle = ucast t - last_keystroke_time s"
  shows "wpm_window_timestamps (check_session_timeout cfg t s) = wpm_window_timestamps s"
    "wpm_window_keystrokes (check_session_timeout cfg t s) = wpm_window_keystrokes s"
    "wpm_window_head (check_session_timeout cfg t s)
       = (if of_nat (SESSION_TIMEOUT_MS cfg) < idle then 0 else wpm_window_head s)"
    "wpm_window_count (check_session_timeout cfg t s)
       = (if of_nat (SESSION_TIMEOUT_MS cfg) < idle then 0 else wpm_window_count s)"
    "peak_wpm (check_session_timeout cfg t s)
       = (if of_nat (SESSION_TIMEOUT_MS cfg) < idle then 0 else peak_wpm s)"
    "average_wpm (check_session_timeout cfg t s)
       = (if of_nat (SESSION_TIMEOUT_MS cfg) < idle then 0 else average_wpm s)"
    "session_keystrokes (check_session_timeout cfg t s)
       = (if of_nat (SESSION_TIMEOUT_MS cfg) < idle then 0 else session_keystrokes s)"
    "session_start_time (check_session_timeout cfg t s)
       = (if of_nat (SESSION_TIMEOUT_MS cfg) < idle then ucast t else session_start_time s)"
  unfolding idle by (simp_all add: check_session_timeout_def Let_def)

lemma wpm_insert_speed:
  "wpm_window_timestamps (wpm_insert t s)
     = (wpm_window_timestamps s)[unat (wpm_window_head s) := ucast t]"
  "wpm_window_keystrokes (wpm_insert t s)
     = (wpm_window_keystrokes s)[unat (wpm_window_head s) := 1]"
  "wpm_window_head (wpm_insert t s) = of_nat ((unat (wpm_window_head s) + 1) mod 10)"
  "wpm_window_count (wpm_insert t s)
     = (if unat (wpm_window_count s) < 10 then wpm_window_count s + 1 else wpm_window_count s)"
  "peak_wpm (wpm_insert t s) = peak_wpm s" "average_wpm (wpm_insert t s) = average_wpm s"
  "session_keystrokes (wpm_insert t s) = session_keystrokes s"
  "session_start_time (wpm_insert t s) = session_start_time s"
  "last_keystroke_time (wpm_insert t s) = last_keystroke_time s"
  by (simp_all add: wpm_insert_def)

lemma wpm_current_speed:
  assumes "wpm_scan (unat (wpm_window_count s)) 0 (ucast t) (of_nat (WPM_WINDOW_MS cfg))
             (wpm_window_timestamps s) (wpm_window_keystrokes s) 0 (ucast t)
           = (sum_ks, oldest_time)"
  shows "wpm_window_timestamps (wpm_current cfg t s) = wpm_window_timestamps s"
    "wpm_window_keystrokes (wpm_current cfg t s) = wpm_window_keystrokes s"
    "wpm_window_head (wpm_current cfg t s) = wpm_window_head s"
    "wpm_window_count (wpm_current cfg t s) = wpm_window_count s"
    "average_wpm (wpm_current cfg t s) = average_wpm s"
    "session_keystrokes (wpm_current cfg t s) = session_keystrokes s"
    "session_start_time (wpm_current cfg t s) = session_start_time s"
    "last_keystroke_time (wpm_current cfg t s) = last_keystroke_time s"
    "current_wpm (wpm_current cfg t s)
       = (if 0 < ucast t - oldest_time \<and> 0 < sum_ks
          then ucast (min ((sum_ks * 60000) div ((ucast t - oldest_time) * 5)) 255) else 0)"
  unfolding wpm_current_def Let_def assms by simp_all

lemma wpm_average_speed:
  "wpm_window_timestamps (wpm_average t s) = wpm_window_timestamps s"
  "wpm_window_keystrokes (wpm_average t s) = wpm_window_keystrokes s"
  "wpm_window_head (wpm_average t s) = wpm_window_head s"
  "wpm_window_count (wpm_average t s) = wpm_window_count s"
  "current_wpm (wpm_average t s) = current_wpm s"
  "session_keystrokes (wpm_average t s) = session_keystrokes s"
  "session_start_time (wpm_average t s) = session_start_time s"
  "last_keystroke_time (wpm_average t s) = last_keystroke_time s"
  "average_wpm (wpm_average t s)
     = (if 0 < session_keystrokes s \<and> 0 < session_start_time s \<and>
           0 < ucast t - session_start_time s
        then ucast (min ((session_keystrokes s * 60000)
                          div ((ucast t - session_start_time s) * 5)) 255)
        else average_wpm s)"
  by (simp_all add: wpm_average_def Let_def)

lemma first_press_at_wrap:
  fixes s1 :: stats_state
  assumes s1: "s1 = snd (keystroke_event_listener cfg0 (press 1) (reads_at 4294967040)
                           (fresh cfg0 0))"
  shows "wpm_window_timestamps s1 = [4294967040, 0, 0, 0, 0, 0, 0, 0, 0, 0]"
    "wpm_window_keystrokes s1 = [1, 0, 0, 0, 0, 0, 0, 0, 0, 0]"
    "wpm_window_head s1 = 1" "wpm_window_count s1 = 1"
    "session_keystrokes s1 = 1" "session_start_time s1 = 4294967040"
    "last_keystroke_time s1 = 4294967040" "current_wpm s1 = 0" "average_wpm s1 = 0"
proof -
  define ev where "ev = \<lparr>usage_page = 1, state = True\<rparr>"
  define up where "up = reads_at 4294967040"
  define c where "c = check_session_timeout cfg0 (up_session_timeout up)
                  ((fresh cfg0 0)\<lparr>total_keystrokes := total_keystrokes (fresh cfg0 0) + 1,
                     today_keystrokes := today_keystrokes (fresh cfg0 0) + 1\<rparr>)"
  define b where "b = before_update_wpm cfg0 ev up (fresh cfg0 0)"
  define i where "i = wpm_insert (up_wpm up) b"
  define cu where "cu = wpm_current cfg0 (up_wpm up) i"
  define a where "a = wpm_average (up_wpm up) cu"
  have u: "up_session_timeout up = 4294967040" "up_session_start up = 4294967040"
    "up_last_keystroke up = 4294967040" "up_wpm up = 4294967040"
    "(ucast (4294967040 :: i64) :: u32) = 4294967040"
    by (simp_all add: up_def reads_at_def)
  have cf: "wpm_window_timestamps c = [0, 0, 0, 0, 0, 0, 0, 0, 0, 0]"
    "wpm_window_keystrokes c = [0, 0, 0, 0, 0, 0, 0, 0, 0, 0]"
    "wpm_window_head c = 0" "wpm_window_count c = 0" "average_wpm c = 0"
    "session_keystrokes c = 0"
    unfolding c_def
    by (simp_all add: check_session_timeout_speed [OF refl] fresh_speed cfg0_speed u)
  have bf: "wpm_window_timestamps b = [0, 0, 0, 0, 0, 0, 0, 0, 0, 0]"
    "wpm_window_keystrokes b = [0, 0, 0, 0, 0, 0, 0, 0, 0, 0]"
    "wpm_window_head b = 0" "wpm_window_count b = 0" "average_wpm b = 0"
    "session_keystrokes b = 1" "session_start_time b = 4294967040"
    "last_keystroke_time b = 4294967040"
    unfolding b_def
    by (simp_all add: before_update_wpm_speed [OF c_def] cf u)
  have inf: "wpm_window_timestamps i = [4294967040, 0, 0, 0, 0, 0, 0, 0, 0, 0]"
    "wpm_window_keystrokes i = [1, 0, 0, 0, 0, 0, 0, 0, 0, 0]"
    "wpm_window_head i = 1" "wpm_window_count i = 1" "average_wpm i = 0"
    "session_keystrokes i = 1" "session_start_time i = 4294967040"
    "last_keystroke_time i = 4294967040"
    unfolding i_def by (simp_all add: wpm_insert_speed bf u)
  have sc: "wpm_scan (unat (wpm_window_count i)) 0 (ucast (up_wpm up))
             (of_nat (WPM_WINDOW_MS cfg0)) (wpm_window_timestamps i)
             (wpm_window_keystrokes i) 0 (ucast (up_wpm up)) = (1, 4294967040)"
    by (simp add: inf u cfg0_speed wpm_scan.simps)
  have cuf: "wpm_window_timestamps cu = [4294967040, 0, 0, 0, 0, 0, 0, 0, 0, 0]"
    "wpm_window_keystrokes cu = [1, 0, 0, 0, 0, 0, 0, 0, 0, 0]"
    "wpm_window_head cu = 1" "wpm_window_count cu = 1" "average_wpm cu = 0"
    "session_keystrokes cu = 1" "session_start_time cu = 4294967040"
    "last_keystroke_time cu = 4294967040" "current_wpm cu = 0"
    unfolding cu_def by (simp_all add: wpm_current_speed [OF sc, unfolded u] inf u)
  have af: "wpm_window_timestamps a = [4294967040, 0, 0, 0, 0, 0, 0, 0, 0, 0]"
    "wpm_window_keystrokes a = [1, 0, 0, 0, 0, 0, 0, 0, 0, 0]"
    "wpm_window_head a = 1" "wpm_window_count a = 1" "average_wpm a = 0"
    "session_keystrokes a = 1" "session_start_time a = 4294967040"
    "last_keystroke_time a = 4294967040" "current_wpm a = 0"
    unfolding a_def by (simp_all add: wpm_average_speed cuf u)
  have br: "before_rollover cfg0 ev up (fresh cfg0 0) = a"
    by (simp add: before_rollover_stages update_wpm_stages a_def cu_def i_def b_def)
  have st: "state ev" by (simp add: ev_def)
  have s1': "s1 = snd (keystroke_event_listener cfg0 (Keycode_state_changed ev) up (fresh cfg0 0))"
    by (simp add: s1 press_def ev_def up_def)
  show "wpm_window_timestamps s1 = [4294967040, 0, 0, 0, 0, 0, 0, 0, 0, 0]"
    "wpm_window_keystrokes s1 = [1, 0, 0, 0, 0, 0, 0, 0, 0, 0]"
    "wpm_window_head s1 = 1" "wpm_window_count s1 = 1"
    "session_keystrokes s1 = 1" "session_start_time s1 = 4294967040"
    "last_keystroke_time s1 = 4294967040" "current_wpm s1 = 0" "average_wpm s1 = 0"
    unfolding s1' by (simp_all add: listener_press_speed [OF st] br af)
qed

lemma second_press_after_wrap:
  fixes s1 s2 :: stats_state
  assumes f: "wpm_window_timestamps s1 = [4294967040, 0, 0, 0, 0, 0, 0, 0, 0, 0]"
    "wpm_window_keystrokes s1 = [1, 0, 0, 0, 0, 0, 0, 0, 0, 0]"
    "wpm_window_head s1 = 1" "wpm_window_count s1 = 1"
    "session_keystrokes s1 = 1" "session_start_time s1 = 4294967040"
    "last_keystroke_time s1 = 4294967040"
    and s2: "s2 = snd (keystroke_event_listener cfg0 (press 1) (reads_at 4294967552) s1)"
  shows "wpm_window_timestamps s2 = [4294967040, 256, 0, 0, 0, 0, 0, 0, 0, 0]"
    "wpm_window_keystrokes s2 = [1, 1, 0, 0, 0, 0, 0, 0, 0, 0]"
    "wpm_window_count s2 = 2" "current_wpm s2 = 0" "average_wpm s2 = 46"
proof -
  define ev where "ev = \<lparr>usage_page = 1, state = True\<rparr>"
  define up where "up = reads_at 4294967552"
  define c where "c = check_session_timeout cfg0 (up_session_timeout up)
                  (s1\<lparr>total_keystrokes := total_keystrokes s1 + 1,
                     today_keystrokes := today_keystrokes s1 + 1\<rparr>)"
  define b where "b = before_update_wpm cfg0 ev up s1"
  define i where "i = wpm_insert (up_wpm up) b"
  define cu where "cu = wpm_current cfg0 (up_wpm up) i"
  define a where "a = wpm_average (up_wpm up) cu"
  have u: "up_session_timeout up = 4294967552" "up_session_start up = 4294967552"
    "up_last_keystroke up = 4294967552" "up_wpm up = 4294967552"
    "(ucast (4294967552 :: i64) :: u32) = 256"
    by (simp_all add: up_def reads_at_def)
  have w: "(256 :: u32) - 4294967040 = 512" "\<not> (4294967040 :: u32) < 256" by simp_all
  have cf: "wpm_window_timestamps c = [4294967040, 0, 0, 0, 0, 0, 0, 0, 0, 0]"
    "wpm_window_keystrokes c = [1, 0, 0, 0, 0, 0, 0, 0, 0, 0]"
    "wpm_window_head c = 1" "wpm_window_count c = 1"
    "session_keystrokes c = 1" "session_start_time c = 4294967040"
    unfolding c_def
    by (simp_all add: check_session_timeout_speed [OF refl] f cfg0_speed u w)
  have bf: "wpm_window_timestamps b = [4294967040, 0, 0, 0, 0, 0, 0, 0, 0, 0]"
    "wpm_window_keystrokes b = [1, 0, 0, 0, 0, 0, 0, 0, 0, 0]"
    "wpm_window_head b = 1" "wpm_window_count b = 1"
    "session_keystrokes b = 2" "session_start_time b = 4294967040"
    unfolding b_def
    by (simp_all add: before_update_wpm_speed [OF c_def] cf u)
  have inf: "wpm_window_timestamps i = [4294967040, 256, 0, 0, 0, 0, 0, 0, 0, 0]"
    "wpm_window_keystrokes i = [1, 1, 0, 0, 0, 0, 0, 0, 0, 0]"
    "wpm_window_count i = 2"
    "session_keystrokes i = 2" "session_start_time i = 4294967040"
    unfolding i_def by (simp_all add: wpm_insert_speed bf u)
  have sc: "wpm_scan (unat (wpm_window_count i)) 0 (ucast (up_wpm up))
             (of_nat (WPM_WINDOW_MS cfg0)) (wpm_window_timestamps i)
             (wpm_window_keystrokes i) 0 (ucast (up_wpm up)) = (2, 256)"
    by (simp add: inf u w cfg0_speed wpm_scan.simps)
  have cuf: "wpm_window_timestamps cu = [4294967040, 256, 0, 0, 0, 0, 0, 0, 0, 0]"
    "wpm_window_keystrokes cu = [1, 1, 0, 0, 0, 0, 0, 0, 0, 0]"
    "wpm_window_count cu = 2"
    "session_keystrokes cu = 2" "session_start_time cu = 4294967040" "current_wpm cu = 0"
    unfolding cu_def by (simp_all add: wpm_current_speed [OF sc, unfolded u] inf u)
  have af: "wpm_window_timestamps a = [4294967040, 256, 0, 0, 0, 0, 0, 0, 0, 0]"
    "wpm_window_keystrokes a = [1, 1, 0, 0, 0, 0, 0, 0, 0, 0]"
    "wpm_window_count a = 2" "current_wpm a = 0" "average_wpm a = 46"
    unfolding a_def by (simp_all add: wpm_average_speed cuf u w)
  have br: "before_rollover cfg0 ev up s1 = a"
    by (simp add: before_rollover_stages update_wpm_stages a_def cu_def i_def b_def)
  have st: "state ev" by (simp add: ev_def)
  have s2': "s2 = snd (keystroke_event_listener cfg0 (Keycode_state_changed ev) up s1)"
    by (simp add: s2 press_def ev_def up_def)
  show "wpm_window_timestamps s2 = [4294967040, 256, 0, 0, 0, 0, 0, 0, 0, 0]"
    "wpm_window_keystrokes s2 = [1, 1, 0, 0, 0, 0, 0, 0, 0, 0]"
    "wpm_window_count s2 = 2" "current_wpm s2 = 0" "average_wpm s2 = 46"
    unfolding s2' by (simp_all add: listener_press_speed [OF st] br af)
qed

lemma wpm_spec_wrap: "wpm_spec 5000 256 [(4294967040, 1), (256, 1)] = 46"
  by (simp add: wpm_spec_def)

text \<open>
  Claim C7, at two key presses 512 ms apart with the 32-bit millisecond count wrapping
  between them (the first at uptime 4294967040, the second at 4294967552, read as 256).
  Both entries of the window qualify, their ages being 512 and 0, so the speed the
  claim words is \<open>2 * 60000 / (512 * 5) = 46\<close>. \<^verbatim>\<open>update_wpm\<close> finds the oldest
  qualifying entry by comparing the raw timestamps, takes the entry of the second press
  for it, gets an elapsed span of 0 and stores a current speed of 0. The session average
  of the same call subtracts modulo \<open>2^32\<close> and is 46.
\<close>

theorem update_wpm_wrap_divergence:
  "window_entries (process_events cfg0 events_wrap (fresh cfg0 0))
     = [(4294967040, 1), (256, 1)] \<and>
   current_wpm (process_events cfg0 events_wrap (fresh cfg0 0)) = 0 \<and>
   average_wpm (process_events cfg0 events_wrap (fresh cfg0 0)) = 46 \<and>
   wpm_spec (WPM_WINDOW_MS cfg0) 256
     (window_entries (process_events cfg0 events_wrap (fresh cfg0 0))) = 46"
proof -
  define s1 where "s1 = snd (keystroke_event_listener cfg0 (press 1) (reads_at 4294967040)
                               (fresh cfg0 0))"
  define s2 where "s2 = snd (keystroke_event_listener cfg0 (press 1) (reads_at 4294967552) s1)"
  have p: "process_events cfg0 events_wrap (fresh cfg0 0) = s2"
    by (simp add: events_wrap_def s2_def s1_def)
  note f1 = first_press_at_wrap [OF s1_def]
  note f2 = second_press_after_wrap [OF f1(1-7) s2_def]
  have n: "unat (wpm_window_count s2) = Suc (Suc 0)" by (simp add: f2)
  have e: "window_entries s2 = [(4294967040, 1), (256, 1)]"
    unfolding window_entries_def n by (simp add: f2)
  show ?thesis unfolding p by (simp add: e f2 cfg0_speed wpm_spec_wrap)
qed

end
